theory Spec2Isabelle
  imports Main
begin

section \<open>Errors and locations\<close>

text \<open>
  The error values of \<open>error.go\<close>. The sentinel errors are constructors of their own;
  \<open>UnexpectedCharacterError\<close> carries the rune (a code point, as a natural number);
  \<open>RangeError\<close> carries the fields of the struct in declaration order:
  Value, Element, Min, Max, Given. \<open>ErrInvalidZone\<close> is returned by \<open>ParseISOZone\<close>
  but declared in none of the files at hand: it is taken as one more sentinel.
  \<open>ErrYearOutOfRange\<close> stands for the \<open>errors.New\<close> value of \<open>MarshalText\<close>.
\<close>

datatype error =
    ErrZoneTooShort
  | ErrZoneTooLong
  | ErrRemainingData
  | ErrNotString
  | ErrPrecision
  | ErrInvalidZone
  | UnexpectedCharacterError nat
  | RangeError string string int int int
  | ErrYearOutOfRange

text \<open>
  A \<open>*time.Location\<close> as the parser builds it: \<open>time.UTC\<close>, or
  \<open>time.FixedZone(name, offset)\<close> with the offset in seconds east of UTC.
\<close>

datatype location = UTC | FixedZone string int

section \<open>Machine integers\<close>

text \<open>
  Go's \<open>int\<close> is taken as 64 bits wide: \<open>int64\<close> is the two's-complement wrap-around of
  an arithmetic result. \<open>quot\<close> is Go's division of integers, which truncates towards
  zero.
\<close>

definition int64 :: "int \<Rightarrow> int" where
  "int64 x = (x + 2 ^ 63) mod 2 ^ 64 - 2 ^ 63"

definition quot :: "int \<Rightarrow> int \<Rightarrow> int" where
  "quot a b = (if (a < 0) \<noteq> (b < 0) then - (\<bar>a\<bar> div \<bar>b\<bar>) else \<bar>a\<bar> div \<bar>b\<bar>)"

section \<open>The library's UTF-8 decoder\<close>

text \<open>
  \<open>utf8.DecodeRune\<close> of the Go library, on a byte slice (a \<open>string\<close> is a list of
  8-bit characters): the first code point and its width in bytes, \<open>(RuneError, 0)\<close> on
  the empty slice and \<open>(RuneError, 1)\<close> on an encoding that is not valid UTF-8.
\<close>

definition RuneError :: nat where
  "RuneError = 0xFFFD"

definition byte :: "char \<Rightarrow> nat" where
  "byte ch = of_char ch"

definition inRange :: "nat \<Rightarrow> nat \<Rightarrow> char \<Rightarrow> bool" where
  "inRange lo hi ch = (lo \<le> byte ch \<and> byte ch \<le> hi)"

fun DecodeRune :: "string \<Rightarrow> nat \<times> nat" where
  "DecodeRune [] = (RuneError, 0)"
| "DecodeRune (p0 # ps) =
     (let b0 = byte p0 in
      if b0 < 0x80 then (b0, 1)
      else if b0 < 0xC2 then (RuneError, 1)
      else if b0 < 0xE0 then
        (case ps of
           b1 # _ \<Rightarrow>
             if inRange 0x80 0xBF b1 then ((b0 mod 32) * 64 + byte b1 mod 64, 2)
             else (RuneError, 1)
         | _ \<Rightarrow> (RuneError, 1))
      else if b0 < 0xF0 then
        (case ps of
           b1 # b2 # _ \<Rightarrow>
             if \<not> inRange (if b0 = 0xE0 then 0xA0 else 0x80)
                           (if b0 = 0xED then 0x9F else 0xBF) b1 then (RuneError, 1)
             else if \<not> inRange 0x80 0xBF b2 then (RuneError, 1)
             else ((b0 mod 16) * 4096 + (byte b1 mod 64) * 64 + byte b2 mod 64, 3)
         | _ \<Rightarrow> (RuneError, 1))
      else if b0 < 0xF5 then
        (case ps of
           b1 # b2 # b3 # _ \<Rightarrow>
             if \<not> inRange (if b0 = 0xF0 then 0x90 else 0x80)
                           (if b0 = 0xF4 then 0x8F else 0xBF) b1 then (RuneError, 1)
             else if \<not> inRange 0x80 0xBF b2 then (RuneError, 1)
             else if \<not> inRange 0x80 0xBF b3 then (RuneError, 1)
             else ((b0 mod 8) * 262144 + (byte b1 mod 64) * 4096
                   + (byte b2 mod 64) * 64 + byte b3 mod 64, 4)
         | _ \<Rightarrow> (RuneError, 1))
      else (RuneError, 1))"

section \<open>ParseISOZone\<close>

text \<open>\<open>charStart\<close> is the position of the character \<open>0\<close>.\<close>

definition charStart :: int where
  "charStart = 48"

definition isDigit :: "char \<Rightarrow> bool" where
  "isDigit ch = (ch \<in> set ''0123456789'')"

text \<open>
  The loop \<open>for i = 0; i < len(number); i++\<close> of \<open>ParseISOZone\<close>. The list argument is
  \<open>number[i:]\<close>, so its head is \<open>number[i]\<close>; the other arguments are the loop variables
  \<open>i\<close>, \<open>z\<close>, \<open>digits\<close>, \<open>multiplier\<close> and \<open>offset\<close>. The result is the error returned
  from inside the loop, or the values of \<open>z\<close>, \<open>digits\<close>, \<open>multiplier\<close> and \<open>offset\<close>
  when the loop ends.
\<close>

fun zoneLoop :: "nat \<Rightarrow> string \<Rightarrow> int \<Rightarrow> int \<Rightarrow> int \<Rightarrow> int \<Rightarrow> error + (int \<times> int \<times> int \<times> int)" where
  "zoneLoop i [] z digits multiplier offset = Inr (z, digits, multiplier, offset)"
| "zoneLoop i (ch # rest) z digits multiplier offset =
     (if digits > 2 then Inl ErrZoneTooLong
      else
        let (offset1, multiplier1, z1, digits1) =
              (if i = 2 \<or> i = 5 then
                 (int64 (offset + int64 (z * multiplier)), quot multiplier 60, 0, 0)
               else (offset, multiplier, int64 (z * 10), digits))
        in
          if isDigit ch then
            zoneLoop (i + 1) rest (int64 (z1 + (int (byte ch) - charStart)))
              (int64 (digits1 + 1)) multiplier1 offset1
          else if ch = CHR '':'' then
            (if i \<noteq> 2 \<and> i \<noteq> 5 then Inl (UnexpectedCharacterError (byte ch))
             else zoneLoop (i + 1) rest z1 0 multiplier1 offset1)
          else Inl (UnexpectedCharacterError (byte ch)))"

text \<open>
  \<open>ParseISOZone\<close>. The switch on the decoded rune comes first; the test
  \<open>len(inp) < 3\<close> is on the whole input, sign included; \<open>number\<close> is \<open>inp[i:]\<close> with
  \<open>i\<close> the width of the decoded sign.
\<close>

definition ParseISOZone :: "string \<Rightarrow> error + location" where
  "ParseISOZone inp =
     (let (r, i) = DecodeRune inp in
      if r = byte CHR ''Z'' then Inr UTC
      else if r \<noteq> byte CHR ''+'' \<and> r \<noteq> byte CHR ''-'' \<and> r \<noteq> 0x2212 then
        (if r = RuneError then Inl (UnexpectedCharacterError (byte CHR ''?''))
         else Inl (UnexpectedCharacterError r))
      else
        let neg = (r \<noteq> byte CHR ''+'') in
        if length inp < 3 then Inl ErrZoneTooShort
        else
          (case zoneLoop 0 (drop i inp) 0 0 3600 0 of
             Inl e \<Rightarrow> Inl e
           | Inr (z, digits, multiplier, offset) \<Rightarrow>
               let offset1 = int64 (offset + int64 (z * multiplier)) in
               if digits \<noteq> 2 then Inl ErrInvalidZone
               else
                 let offset2 = (if neg then int64 (- offset1) else offset1) in
                 if neg \<and> offset2 = 0 then Inl ErrInvalidZone
                 else Inr (FixedZone inp offset2)))"

section \<open>Times\<close>

text \<open>
  The wrapper type \<open>Time\<close> of \<open>time.go\<close>, seen through the accessors of the embedded
  \<open>time.Time\<close>: calendar fields, nanosecond and location. \<open>Date\<close> hands its arguments
  to \<open>time.Date\<close> of the Go library, which keeps arguments that lie in their usual
  ranges as they are; the record holds these arguments. The zero value \<open>Time{}\<close> is
  January 1 of year 1, 00:00:00 UTC.
\<close>

record Time =
  Year :: int
  Month :: int
  Day :: int
  Hour :: int
  Minute :: int
  Second :: int
  Nanosecond :: int
  Location :: location

definition Date :: "int \<Rightarrow> int \<Rightarrow> int \<Rightarrow> int \<Rightarrow> int \<Rightarrow> int \<Rightarrow> int \<Rightarrow> location \<Rightarrow> Time" where
  "Date y mo dd hh mi sec nsec loc =
     \<lparr>Year = y, Month = mo, Day = dd, Hour = hh, Minute = mi, Second = sec,
      Nanosecond = nsec, Location = loc\<rparr>"

definition zeroTime :: Time where
  "zeroTime = Date 1 1 1 0 0 0 0 UTC"

text \<open>The offset in seconds east of UTC that \<open>Zone()\<close> reports.\<close>

fun zoneOffset :: "location \<Rightarrow> int" where
  "zoneOffset UTC = 0"
| "zoneOffset (FixedZone name off) = off"

section \<open>Parse\<close>

text \<open>The cursor constants \<open>year \<dots> millisecond\<close> (an \<open>iota\<close> enumeration of \<open>uint\<close>).\<close>

definition year :: nat where "year = 0"
definition month :: nat where "month = 1"
definition day :: nat where "day = 2"
definition hour :: nat where "hour = 3"
definition minute :: nat where "minute = 4"
definition second :: nat where "second = 5"
definition millisecond :: nat where "millisecond = 6"

text \<open>
  The local variables of \<open>Parse\<close>: \<open>vY\<close> is \<open>Y\<close>, \<open>vM\<close> is \<open>M\<close>, \<open>vd\<close> is \<open>d\<close>, and so on
  (\<open>vc\<close> the accumulator \<open>c\<close>, \<open>vp\<close> the cursor \<open>p\<close>).
\<close>

record scan =
  vY :: int
  vM :: int
  vd :: int
  vh :: int
  vm :: int
  vs :: int
  vfraction :: int
  vnfraction :: int
  vloc :: location
  vc :: int
  vp :: nat

definition initScan :: scan where
  "initScan = \<lparr>vY = 0, vM = 0, vd = 0, vh = 0, vm = 0, vs = 0, vfraction = 0,
               vnfraction = 1, vloc = UTC, vc = 0, vp = year\<rparr>"

text \<open>
  One pass through the body of the loop labelled \<open>parse\<close>, at the byte \<open>ch = inp[i]\<close>
  with \<open>rest = inp[i+1:]\<close>: the loop goes on (\<open>Continue\<close>), is left by \<open>break parse\<close>
  (\<open>Break\<close>), or the function returns an error (\<open>Fail\<close>). \<open>inp[i:]\<close> is \<open>ch # rest\<close>, and
  \<open>len(inp) != i+1\<close> says that \<open>rest\<close> is not empty.
\<close>

datatype step = Continue scan | Break scan | Fail error

definition scanStep :: "scan \<Rightarrow> char \<Rightarrow> string \<Rightarrow> step" where
  "scanStep st ch rest =
     (if isDigit ch then
        Continue (st\<lparr>vc := int64 (int64 (vc st * 10) + (int (byte ch) - charStart)),
                     vnfraction := (if vp st = millisecond then vnfraction st + 1
                                    else vnfraction st)\<rparr>)
      else if ch = CHR ''-'' \<and> vp st < hour then
        (if vp st = year then Continue (st\<lparr>vY := vc st, vp := vp st + 1, vc := 0\<rparr>)
         else if vp st = month then Continue (st\<lparr>vM := vc st, vp := vp st + 1, vc := 0\<rparr>)
         else Fail (UnexpectedCharacterError (byte ch)))
      else if ch = CHR ''-'' \<or> ch = CHR ''+'' then
        (if vp st \<noteq> hour \<and> vp st \<noteq> minute \<and> vp st \<noteq> second \<and> vp st \<noteq> millisecond
         then Fail (UnexpectedCharacterError (byte ch))
         else
           let st1 = (if vp st = hour then st\<lparr>vh := vc st\<rparr>
                      else if vp st = minute then st\<lparr>vm := vc st\<rparr>
                      else if vp st = second then st\<lparr>vs := vc st\<rparr>
                      else st\<lparr>vfraction := vc st\<rparr>)
           in (case ParseISOZone (ch # rest) of
                 Inl e \<Rightarrow> Fail e
               | Inr l \<Rightarrow> Break (st1\<lparr>vc := 0, vloc := l\<rparr>)))
      else if ch = CHR ''T'' then
        (if vp st \<noteq> day then Fail (UnexpectedCharacterError (byte ch))
         else Continue (st\<lparr>vd := vc st, vc := 0, vp := vp st + 1\<rparr>))
      else if ch = CHR '':'' then
        (if vp st = hour then Continue (st\<lparr>vh := vc st, vc := 0, vp := vp st + 1\<rparr>)
         else if vp st = minute then Continue (st\<lparr>vm := vc st, vc := 0, vp := vp st + 1\<rparr>)
         else if vp st = second then Continue (st\<lparr>vm := vc st, vc := 0, vp := vp st + 1\<rparr>)
         else Fail (UnexpectedCharacterError (byte ch)))
      else if ch = CHR ''.'' then
        (if vp st \<noteq> second then Fail (UnexpectedCharacterError (byte ch))
         else Continue (st\<lparr>vs := vc st, vc := 0, vp := vp st + 1\<rparr>))
      else if ch = CHR ''Z'' then
        (if vp st \<noteq> hour \<and> vp st \<noteq> minute \<and> vp st \<noteq> second \<and> vp st \<noteq> millisecond
         then Fail (UnexpectedCharacterError (byte ch))
         else
           let st1 = (if vp st = hour then st\<lparr>vh := vc st\<rparr>
                      else if vp st = minute then st\<lparr>vm := vc st\<rparr>
                      else if vp st = second then st\<lparr>vs := vc st\<rparr>
                      else st\<lparr>vfraction := vc st\<rparr>)
           in if rest \<noteq> [] then Fail ErrRemainingData
              else Continue (st1\<lparr>vc := 0\<rparr>))
      else Fail (UnexpectedCharacterError (byte ch)))"

text \<open>The loop \<open>for ; i < len(inp); i++\<close>, on the bytes \<open>inp[i:]\<close> still to read.\<close>

fun scanLoop :: "scan \<Rightarrow> string \<Rightarrow> error + scan" where
  "scanLoop st [] = Inr st"
| "scanLoop st (ch # rest) =
     (case scanStep st ch rest of
        Continue st1 \<Rightarrow> scanLoop st1 rest
      | Break st1 \<Rightarrow> Inr st1
      | Fail e \<Rightarrow> Inl e)"

text \<open>"Capture remaining data": the block \<open>if c > 0 { switch p \<dots> }\<close> after the loop.\<close>

definition captureRemaining :: "scan \<Rightarrow> scan" where
  "captureRemaining st =
     (if vc st > 0 then
        (if vp st = day then st\<lparr>vd := vc st\<rparr>
         else if vp st = hour then st\<lparr>vh := vc st\<rparr>
         else if vp st = minute then st\<lparr>vm := vc st\<rparr>
         else if vp st = second then st\<lparr>vs := vc st\<rparr>
         else if vp st = millisecond then st\<lparr>vfraction := vc st\<rparr>
         else st)
      else st)"

text \<open>
  The loop \<open>for i := 0; i < scale; i++ { fraction *= 10 }\<close>, by the number of passes
  (none when \<open>scale\<close> is not positive).
\<close>

fun scaleLoop :: "nat \<Rightarrow> int \<Rightarrow> int" where
  "scaleLoop 0 fraction = fraction"
| "scaleLoop (Suc n) fraction = scaleLoop n (int64 (fraction * 10))"

text \<open>
  Modelled from the spec: \<open>daysIn\<close>, the number of days of a month, is called by
  \<open>Parse\<close> but defined in none of the files at hand. The spec asks for the days in the
  month by the standard Gregorian leap rules: a year is a leap year when it is divisible
  by 4 and (not by 100, or by 400).
\<close>

definition isLeap :: "int \<Rightarrow> bool" where
  "isLeap y = (y mod 4 = 0 \<and> (y mod 100 \<noteq> 0 \<or> y mod 400 = 0))"

definition daysIn :: "int \<Rightarrow> int \<Rightarrow> int" where
  "daysIn mo y =
     (if mo = 2 then (if isLeap y then 29 else 28)
      else if mo = 4 \<or> mo = 6 \<or> mo = 9 \<or> mo = 11 then 30
      else 31)"

text \<open>
  The rest of \<open>Parse\<close> after the loop: the captured remainder, the test of the
  fraction, its scaling to nanoseconds, the \<open>switch\<close> that validates the fields in the
  order month, day, hour, minute, second, and the construction of the result.
\<close>

definition finish :: "string \<Rightarrow> scan \<Rightarrow> error + Time" where
  "finish inp st0 =
     (let st = captureRemaining st0 in
      if vfraction st < 0 \<or> 1000000000 \<le> vfraction st then Inl ErrPrecision
      else
        let scale = 10 - vnfraction st;
            fraction = scaleLoop (nat scale) (vfraction st)
        in
          if vM st < 1 \<or> vM st > 12 then
            Inl (RangeError inp ''month'' 1 12 (vM st))
          else if vd st < 1 \<or> vd st > daysIn (vM st) (vY st) then
            Inl (RangeError inp ''day'' 1 (daysIn (vM st) (vY st)) (vd st))
          else if vh st > 23 then
            Inl (RangeError inp ''hour'' 0 23 (vh st))
          else if vm st > 59 then
            Inl (RangeError inp ''minute'' 0 59 (vm st))
          else if vs st > 59 then
            Inl (RangeError inp ''second'' 0 59 (vs st))
          else Inr (Date (vY st) (vM st) (vd st) (vh st) (vm st) (vs st) fraction (vloc st)))"

definition Parse :: "string \<Rightarrow> error + Time" where
  "Parse inp =
     (case scanLoop initScan inp of
        Inl e \<Rightarrow> Inl e
      | Inr st \<Rightarrow> finish inp st)"

section \<open>JSON decoding\<close>

text \<open>
  \<open>null\<close> of \<open>time.go\<close>: the length test, then the conjunction of the four
  byte comparisons as the source writes it.
\<close>

definition null :: "string \<Rightarrow> bool" where
  "null b =
     (if length b \<noteq> 4 then False
      else if b ! 0 \<noteq> CHR ''n'' \<and> b ! 1 \<noteq> CHR ''u'' \<and> b ! 2 \<noteq> CHR ''l'' \<and> b ! 3 \<noteq> CHR ''l''
           then False
      else True)"

text \<open>
  A call either returns or panics at run time. \<open>UnmarshalJSON\<close> has a pointer
  receiver: the model takes the destination \<open>t\<close> and returns the destination after the
  call together with the error (\<open>None\<close> for \<open>nil\<close>). The slice expression
  \<open>b[1 : len(b)-1]\<close> panics when its low index exceeds its high index. The assignment
  \<open>t.Time, err = Parse(b)\<close> stores the zero \<open>Time\<close> that \<open>Parse\<close> returns beside an
  error.
\<close>

datatype 'a outcome = Panic | Returns 'a

text \<open>The byte of the double quote character.\<close>

definition quote :: char where
  "quote = CHR 0x22"

definition UnmarshalJSON :: "Time \<Rightarrow> string \<Rightarrow> (Time \<times> error option) outcome" where
  "UnmarshalJSON t b =
     (if null b then Returns (t, None)
      else if length b > 0 \<and> b ! 0 = quote \<and> b ! (length b - 1) = quote then
        (if 1 > int (length b) - 1 then Panic
         else
           (case Parse (take (length b - 2) (drop 1 b)) of
              Inl e \<Rightarrow> Returns (zeroTime, Some e)
            | Inr tt \<Rightarrow> Returns (tt, None)))
      else Returns (t, Some ErrNotString))"

section \<open>Encoding\<close>

text \<open>
  The four layouts of \<open>time.go\<close> differ in the number of fraction digits they print
  at most: none, three, six or nine. \<open>MarshalTextFormat\<close>, the variable that selects the
  layout, is passed to \<open>MarshalText\<close> as an argument.
\<close>

datatype layout = RFC3339 | RFC3339Milli | RFC3339Micro | RFC3339Nano

fun fracDigits :: "layout \<Rightarrow> nat" where
  "fracDigits RFC3339 = 0"
| "fracDigits RFC3339Milli = 3"
| "fracDigits RFC3339Micro = 6"
| "fracDigits RFC3339Nano = 9"

text \<open>
  \<open>AppendFormat\<close> belongs to the Go library; here it is for the layouts
  \<open>2006-01-02T15:04:05[.999\<dots>]Z07:00\<close> above, as the library documents them. \<open>appendInt\<close>
  writes an integer in decimal, padded with zeros to a width. A fraction is written
  with nine digits, cut to the digits of the layout, its trailing zeros removed, and
  left out with its point when nothing remains. The zone is \<open>Z\<close> when the offset is 0,
  and otherwise the sign, the hours and the minutes of the offset; its seconds are not
  written.
\<close>

definition digitChar :: "nat \<Rightarrow> char" where
  "digitChar n = char_of (48 + n)"

fun natDigits :: "nat \<Rightarrow> string" where
  "natDigits n = (if n < 10 then [digitChar n] else natDigits (n div 10) @ [digitChar (n mod 10)])"

definition appendInt :: "int \<Rightarrow> nat \<Rightarrow> string" where
  "appendInt x width =
     (let ds = natDigits (nat \<bar>x\<bar>) in
      (if x < 0 then ''-'' else []) @ replicate (width - length ds) (CHR ''0'') @ ds)"

definition trimZeros :: "string \<Rightarrow> string" where
  "trimZeros ds = rev (dropWhile (\<lambda>ch. ch = CHR ''0'') (rev ds))"

definition appendNano :: "int \<Rightarrow> nat \<Rightarrow> string" where
  "appendNano nanosec n =
     (let ds = trimZeros (take n (appendInt nanosec 9)) in
      if ds = [] then [] else CHR ''.'' # ds)"

definition appendZone :: "int \<Rightarrow> string" where
  "appendZone offset =
     (if offset = 0 then ''Z''
      else
        let zone = quot offset 60 in
        (if zone < 0 then ''-'' else ''+'')
          @ appendInt (\<bar>zone\<bar> div 60) 2 @ '':'' @ appendInt (\<bar>zone\<bar> mod 60) 2)"

definition AppendFormat :: "Time \<Rightarrow> layout \<Rightarrow> string" where
  "AppendFormat t fmt =
     appendInt (Year t) 4 @ ''-'' @ appendInt (Month t) 2 @ ''-'' @ appendInt (Day t) 2
       @ ''T'' @ appendInt (Hour t) 2 @ '':'' @ appendInt (Minute t) 2
       @ '':'' @ appendInt (Second t) 2
       @ appendNano (Nanosecond t) (fracDigits fmt)
       @ appendZone (zoneOffset (Location t))"

text \<open>\<open>MarshalText\<close> of \<open>time.go\<close>.\<close>

definition MarshalText :: "layout \<Rightarrow> Time \<Rightarrow> error + string" where
  "MarshalText MarshalTextFormat t =
     (if Year t < 0 \<or> Year t \<ge> 10000 then Inl ErrYearOutOfRange
      else Inr (AppendFormat t MarshalTextFormat))"

section \<open>Notions used to state the properties\<close>

text \<open>The three bytes of the UTF-8 encoding of the minus sign U+2212.\<close>

definition uminus_sign :: string where
  "uminus_sign = [CHR 0xE2, CHR 0x88, CHR 0x92]"

text \<open>
  The loop of \<open>ParseISOZone\<close> in unbounded integers. \<open>zoneInv\<close> is the invariant under
  which the loop of the code computes the same: \<open>z\<close> holds at most three decimal digits,
  the multiplier is at most 3600, and the offset has grown at most once before byte 5 and
  at most twice after it.
\<close>

fun zoneScan :: "nat \<Rightarrow> string \<Rightarrow> int \<Rightarrow> int \<Rightarrow> int \<Rightarrow> int \<Rightarrow> error + (int \<times> int \<times> int \<times> int)" where
  "zoneScan i [] z digits multiplier offset = Inr (z, digits, multiplier, offset)"
| "zoneScan i (ch # rest) z digits multiplier offset =
     (if digits > 2 then Inl ErrZoneTooLong
      else
        let (offset1, multiplier1, z1, digits1) =
              (if i = 2 \<or> i = 5 then (offset + z * multiplier, multiplier div 60, 0, 0)
               else (offset, multiplier, z * 10, digits))
        in
          if isDigit ch then
            zoneScan (i + 1) rest (z1 + (int (byte ch) - charStart)) (digits1 + 1) multiplier1 offset1
          else if ch = CHR '':'' then
            (if i \<noteq> 2 \<and> i \<noteq> 5 then Inl (UnexpectedCharacterError (byte ch))
             else zoneScan (i + 1) rest z1 0 multiplier1 offset1)
          else Inl (UnexpectedCharacterError (byte ch)))"

definition zoneInv :: "nat \<Rightarrow> int \<Rightarrow> int \<Rightarrow> int \<Rightarrow> int \<Rightarrow> bool" where
  "zoneInv i z dg mu off \<longleftrightarrow>
     0 \<le> dg \<and> 0 \<le> z \<and> z < 1000 \<and> (dg \<le> 2 \<longrightarrow> z < 10 ^ nat dg)
     \<and> 0 \<le> mu \<and> mu \<le> 3600
     \<and> 0 \<le> off \<and> off \<le> (if i \<le> 2 then 0 else if i \<le> 5 then 3596400 else 7192800)"

text \<open>
  What \<open>ParseISOZone\<close> does after the test of the length, given the flag \<open>neg\<close>, the
  whole input (for the name of the zone) and \<open>number\<close>, in unbounded integers.
\<close>

definition zoneResult :: "bool \<Rightarrow> string \<Rightarrow> string \<Rightarrow> error + location" where
  "zoneResult neg inp number =
     (case zoneScan 0 number 0 0 3600 0 of
        Inl e \<Rightarrow> Inl e
      | Inr (z, dg, mu, off) \<Rightarrow>
          if dg \<noteq> 2 then Inl ErrInvalidZone
          else if neg \<and> off + z * mu = 0 then Inl ErrInvalidZone
          else Inr (FixedZone inp (if neg then - (off + z * mu) else off + z * mu)))"

text \<open>The value of a group of two decimal digits.\<close>

definition two :: "char \<Rightarrow> char \<Rightarrow> int" where
  "two a b = (int (byte a) - charStart) * 10 + (int (byte b) - charStart)"

text \<open>
  The spellings of the digits after the sign, with the hours, minutes and seconds they
  denote: \<open>hh\<close>, \<open>hhmm\<close>, \<open>hh:mm\<close>, \<open>hh:mmss\<close> and \<open>hh:mm:ss\<close>.
\<close>

definition zoneGroups :: "string \<Rightarrow> (int \<times> int \<times> int) option" where
  "zoneGroups number =
     (case number of
        [a, b] \<Rightarrow>
          if isDigit a \<and> isDigit b then Some (two a b, 0, 0) else None
      | [a, b, c, d] \<Rightarrow>
          if isDigit a \<and> isDigit b \<and> isDigit c \<and> isDigit d then Some (two a b, two c d, 0)
          else None
      | [a, b, c, d, e] \<Rightarrow>
          if isDigit a \<and> isDigit b \<and> c = CHR '':'' \<and> isDigit d \<and> isDigit e
          then Some (two a b, two d e, 0) else None
      | [a, b, c, d, e, f, g] \<Rightarrow>
          if isDigit a \<and> isDigit b \<and> c = CHR '':'' \<and> isDigit d \<and> isDigit e
             \<and> isDigit f \<and> isDigit g
          then Some (two a b, two d e, two f g) else None
      | [a, b, c, d, e, f, g, h] \<Rightarrow>
          if isDigit a \<and> isDigit b \<and> c = CHR '':'' \<and> isDigit d \<and> isDigit e
             \<and> f = CHR '':'' \<and> isDigit g \<and> isDigit h
          then Some (two a b, two d e, two g h) else None
      | _ \<Rightarrow> None)"

text \<open>
  The scanner reads the bytes \<open>pre\<close>, followed in the input by \<open>suf\<close>, from the state
  \<open>st\<close> without leaving the loop: the state it reaches, or \<open>None\<close> when one of the
  bytes of \<open>pre\<close> ends the loop or fails.
\<close>

fun scanTo :: "scan \<Rightarrow> string \<Rightarrow> string \<Rightarrow> scan option" where
  "scanTo st [] suf = Some st"
| "scanTo st (ch # cs) suf =
     (case scanStep st ch (cs @ suf) of
        Continue st1 \<Rightarrow> scanTo st1 cs suf
      | Break st1 \<Rightarrow> None
      | Fail e \<Rightarrow> None)"

text \<open>
  Closing the open time field: the accumulator goes to the hour, minute, second or
  fraction that the cursor names, and is reset.
\<close>

definition closeField :: "scan \<Rightarrow> scan" where
  "closeField st =
     (if vp st = hour then st\<lparr>vh := vc st, vc := 0\<rparr>
      else if vp st = minute then st\<lparr>vm := vc st, vc := 0\<rparr>
      else if vp st = second then st\<lparr>vs := vc st, vc := 0\<rparr>
      else st\<lparr>vfraction := vc st, vc := 0\<rparr>)"

text \<open>
  The errors that the scanning loop and the zone parser return: the three zone errors,
  the Remaining-Data error and the Unexpected-Character errors.
\<close>

fun scanError :: "error \<Rightarrow> bool" where
  "scanError ErrZoneTooShort = True"
| "scanError ErrZoneTooLong = True"
| "scanError ErrInvalidZone = True"
| "scanError ErrRemainingData = True"
| "scanError (UnexpectedCharacterError r) = True"
| "scanError e = False"



text \<open>The last \<open>w\<close> decimal digits of a number, as text.\<close>

fun padded :: "nat \<Rightarrow> nat \<Rightarrow> string" where
  "padded 0 n = []"
| "padded (Suc w) n = padded w (n div 10) @ [digitChar (n mod 10)]"

section \<open>Machine arithmetic\<close>

lemma int64_id: "- (2 ^ 63) \<le> x \<Longrightarrow> x < 2 ^ 63 \<Longrightarrow> int64 x = x"
  by (simp add: int64_def)

lemma digit_value: "isDigit ch \<Longrightarrow> 0 \<le> int (byte ch) - charStart \<and> int (byte ch) - charStart \<le> 9"
  by (auto simp: isDigit_def byte_def charStart_def)

lemma pow_step: "(c::int) < 10 ^ n \<Longrightarrow> 0 \<le> d \<Longrightarrow> d \<le> 9 \<Longrightarrow> c * 10 + d < 10 ^ Suc n"
  by simp

lemma int64_nonneg: "0 \<le> x \<Longrightarrow> x < 9223372036854775808 \<Longrightarrow> int64 x = x"
  by (simp add: int64_def)

lemma int64_small:
  "- 9223372036854775808 \<le> x \<Longrightarrow> x < 9223372036854775808 \<Longrightarrow> int64 x = x"
  by (simp add: int64_def)

lemma quot_nonneg: "0 \<le> a \<Longrightarrow> 0 < b \<Longrightarrow> quot a b = a div b"
  by (simp add: quot_def)

section \<open>The zone parser\<close>

lemmas cursor_defs = year_def month_def day_def hour_def minute_def second_def millisecond_def

lemma colon_not_digit [simp]: "\<not> isDigit CHR '':''"
  by (simp add: isDigit_def)

lemma zoneScan_boundary:
  "i = 2 \<or> i = 5 \<Longrightarrow> zoneScan i (ch # rest) z dg mu off =
     (if dg > 2 then Inl ErrZoneTooLong
      else if isDigit ch then
        zoneScan (i + 1) rest (int (byte ch) - charStart) 1 (mu div 60) (off + z * mu)
      else if ch = CHR '':'' then zoneScan (i + 1) rest 0 0 (mu div 60) (off + z * mu)
      else Inl (UnexpectedCharacterError (byte ch)))"
  by auto

lemma zoneScan_inner:
  "i \<noteq> 2 \<Longrightarrow> i \<noteq> 5 \<Longrightarrow> zoneScan i (ch # rest) z dg mu off =
     (if dg > 2 then Inl ErrZoneTooLong
      else if isDigit ch then
        zoneScan (i + 1) rest (z * 10 + (int (byte ch) - charStart)) (dg + 1) mu off
      else Inl (UnexpectedCharacterError (byte ch)))"
  by auto

lemma zoneScan_not_short: "zoneScan i s z dg mu off \<noteq> Inl ErrZoneTooShort"
proof (induction s arbitrary: i z dg mu off)
  case Nil
  then show ?case by simp
next
  case (Cons ch s)
  show ?case
  proof (cases "i = 2 \<or> i = 5")
    case True
    then show ?thesis using Cons.IH by (simp add: zoneScan_boundary del: zoneScan.simps)
  next
    case False
    then show ?thesis using Cons.IH by (simp add: zoneScan_inner del: zoneScan.simps)
  qed
qed

lemma zoneScan_digits_gt2:
  "dg > 2 \<Longrightarrow> zoneScan i rest z dg mu off \<noteq> Inr (z', 2, mu', off')"
  by (cases rest) auto

lemma zoneScan_accepts:
  "zoneGroups number = Some (h, m, s) \<Longrightarrow>
   \<exists>z mu off. zoneScan 0 number 0 0 3600 0 = Inr (z, 2, mu, off)
      \<and> off + z * mu = h * 3600 + m * 60 + s"
  by (auto simp: zoneGroups_def two_def split: list.splits if_splits)

lemma zoneScan_rejects:
  "zoneGroups number = None \<Longrightarrow> zoneScan 0 number 0 0 3600 0 \<noteq> Inr (z, 2, mu, off)"
  by (auto simp: zoneGroups_def zoneScan_digits_gt2 split: list.splits if_splits)

lemma zoneInv_product:
  assumes "zoneInv i z dg mu off"
  shows "0 \<le> z * mu" "z * mu \<le> 3596400"
proof -
  from assms have b: "0 \<le> z" "z \<le> 999" "0 \<le> mu" "mu \<le> 3600"
    by (auto simp: zoneInv_def)
  then show "0 \<le> z * mu" by simp
  have "z * mu \<le> 999 * 3600" using b by (intro mult_mono) auto
  then show "z * mu \<le> 3596400" by simp
qed

lemma zoneInv_init: "zoneInv 0 0 0 3600 0"
  by (simp add: zoneInv_def)

lemma zoneInv_boundary_digit:
  assumes "zoneInv i z dg mu off" "i = 2 \<or> i = 5" "isDigit ch"
  shows "zoneInv (i + 1) (int (byte ch) - charStart) 1 (mu div 60) (off + z * mu)"
proof -
  have m: "0 \<le> mu div 60" "mu div 60 \<le> 3600"
    using assms(1) by (auto simp: zoneInv_def intro: order_trans[OF zdiv_mono1[of mu 3600 60]])
  show ?thesis
    using assms zoneInv_product[OF assms(1)] digit_value[OF assms(3)] m
    by (auto simp: zoneInv_def)
qed

lemma zoneInv_boundary_colon:
  assumes "zoneInv i z dg mu off" "i = 2 \<or> i = 5"
  shows "zoneInv (i + 1) 0 0 (mu div 60) (off + z * mu)"
proof -
  have m: "0 \<le> mu div 60" "mu div 60 \<le> 3600"
    using assms(1) by (auto simp: zoneInv_def intro: order_trans[OF zdiv_mono1[of mu 3600 60]])
  show ?thesis
    using assms zoneInv_product[OF assms(1)] m
    by (auto simp: zoneInv_def)
qed

lemma zoneInv_inner_digit:
  assumes "zoneInv i z dg mu off" "i \<noteq> 2" "i \<noteq> 5" "\<not> dg > 2" "isDigit ch"
  shows "zoneInv (i + 1) (z * 10 + (int (byte ch) - charStart)) (dg + 1) mu off"
    and "z * 10 < 1000"
proof -
  from assms(1,4) have b: "0 \<le> dg" "dg \<le> 2" "0 \<le> z" "z < 10 ^ nat dg"
    by (auto simp: zoneInv_def)
  have "(10::int) ^ nat dg \<le> 10 ^ 2" using b(2) by (intro power_increasing) auto
  with b(4) have z100: "z < 100" by simp
  then show "z * 10 < 1000" by simp
  have "z * 10 + (int (byte ch) - charStart) < 10 ^ Suc (nat dg)"
    using pow_step[OF b(4)] digit_value[OF assms(5)] by simp
  moreover have "Suc (nat dg) = nat (dg + 1)" using b(1) by simp
  ultimately have p: "z * 10 + (int (byte ch) - charStart) < 10 ^ nat (dg + 1)" by simp
  show "zoneInv (i + 1) (z * 10 + (int (byte ch) - charStart)) (dg + 1) mu off"
    using assms(1,2,3) b z100 digit_value[OF assms(5)] p
    by (auto simp: zoneInv_def)
qed

lemma zoneLoop_zoneScan:
  "zoneInv i z dg mu off \<Longrightarrow> zoneLoop i s z dg mu off = zoneScan i s z dg mu off"
proof (induction s arbitrary: i z dg mu off)
  case Nil
  then show ?case by simp
next
  case (Cons ch s)
  note inv = Cons.prems
  have b: "0 \<le> dg" "0 \<le> z" "z < 1000" "0 \<le> mu" "mu \<le> 3600" "0 \<le> off" "off \<le> 7192800"
    using inv by (auto simp: zoneInv_def split: if_splits)
  show ?case
  proof (cases "dg > 2")
    case True
    then show ?thesis by simp
  next
    case dg: False
    show ?thesis
    proof (cases "i = 2 \<or> i = 5")
      case True
      have p: "0 \<le> z * mu" "z * mu \<le> 3596400"
        by (rule zoneInv_product[OF inv])+
      have w1: "int64 (z * mu) = z * mu"
        using p by (intro int64_nonneg) linarith+
      have w2: "int64 (off + z * mu) = off + z * mu"
        using p b(6,7) by (intro int64_nonneg) linarith+
      note w = w1 w2
      have q: "quot mu 60 = mu div 60" using b by (simp add: quot_nonneg)
      have d: "isDigit ch \<Longrightarrow> int64 (int (byte ch) - charStart) = int (byte ch) - charStart"
        using digit_value[of ch] by (intro int64_nonneg) linarith+
      have one: "int64 1 = 1" by (simp add: int64_def)
      have ih1: "isDigit ch \<Longrightarrow>
          zoneLoop (i + 1) s (int (byte ch) - charStart) 1 (mu div 60) (off + z * mu)
          = zoneScan (i + 1) s (int (byte ch) - charStart) 1 (mu div 60) (off + z * mu)"
        by (rule Cons.IH[OF zoneInv_boundary_digit[OF inv True]])
      have ih2: "zoneLoop (i + 1) s 0 0 (mu div 60) (off + z * mu)
          = zoneScan (i + 1) s 0 0 (mu div 60) (off + z * mu)"
        by (rule Cons.IH[OF zoneInv_boundary_colon[OF inv True]])
      from True consider "i = 2" | "i = 5" by auto
      then show ?thesis
        using dg ih1 ih2
        by cases (simp_all add: w q d one)
    next
      case False
      then have i: "i \<noteq> 2" "i \<noteq> 5" by auto
      have z10: "int64 (z * 10) = z * 10"
        using zoneInv_inner_digit(2)[OF inv i dg] b by (intro int64_nonneg) linarith+
      have zd: "isDigit ch \<Longrightarrow>
          int64 (z * 10 + (int (byte ch) - charStart)) = z * 10 + (int (byte ch) - charStart)"
        using zoneInv_inner_digit(2)[OF inv i dg] b digit_value[of ch]
        by (intro int64_nonneg) linarith+
      have dg1: "int64 (dg + 1) = dg + 1"
        using dg b by (intro int64_nonneg) linarith+
      show ?thesis
        using i dg Cons.IH[OF zoneInv_inner_digit(1)[OF inv i dg]]
        by (simp add: zoneScan_inner z10 zd dg1 del: zoneScan.simps)
    qed
  qed
qed


lemma zoneScan_final_inv:
  "zoneInv i z dg mu off \<Longrightarrow> zoneScan i s z dg mu off = Inr (z', dg', mu', off') \<Longrightarrow>
   zoneInv (i + length s) z' dg' mu' off'"
proof (induction s arbitrary: i z dg mu off)
  case Nil
  then show ?case by simp
next
  case (Cons ch s)
  note inv = Cons.prems(1)
  from Cons.prems(2) have dg: "\<not> dg > 2" by (auto split: if_splits)
  show ?case
  proof (cases "i = 2 \<or> i = 5")
    case True
    from True Cons.prems(2) dg
    consider "isDigit ch"
        "zoneScan (i + 1) s (int (byte ch) - charStart) 1 (mu div 60) (off + z * mu)
           = Inr (z', dg', mu', off')"
      | "zoneScan (i + 1) s 0 0 (mu div 60) (off + z * mu) = Inr (z', dg', mu', off')"
      by (auto simp add: zoneScan_boundary simp del: zoneScan.simps split: if_splits)
    then show ?thesis
    proof cases
      case 1
      from Cons.IH[OF zoneInv_boundary_digit[OF inv True 1(1)] 1(2)] show ?thesis by simp
    next
      case 2
      from Cons.IH[OF zoneInv_boundary_colon[OF inv True] 2] show ?thesis by simp
    qed
  next
    case False
    then have i: "i \<noteq> 2" "i \<noteq> 5" by auto
    from i Cons.prems(2) dg have d: "isDigit ch"
      and r: "zoneScan (i + 1) s (z * 10 + (int (byte ch) - charStart)) (dg + 1) mu off
           = Inr (z', dg', mu', off')"
      by (auto simp add: zoneScan_inner simp del: zoneScan.simps split: if_splits)
    from Cons.IH[OF zoneInv_inner_digit(1)[OF inv i dg d] r] show ?thesis by simp
  qed
qed

lemma zone_tail_eq:
  "(case zoneLoop 0 number 0 0 3600 0 of
      Inl e \<Rightarrow> Inl e
    | Inr (z, digits, multiplier, offset) \<Rightarrow>
        let offset1 = int64 (offset + int64 (z * multiplier)) in
        if digits \<noteq> 2 then Inl ErrInvalidZone
        else
          let offset2 = (if neg then int64 (- offset1) else offset1) in
          if neg \<and> offset2 = 0 then Inl ErrInvalidZone
          else Inr (FixedZone inp offset2))
   = zoneResult neg inp number"
proof -
  have eq: "zoneLoop 0 number 0 0 3600 0 = zoneScan 0 number 0 0 3600 0"
    by (rule zoneLoop_zoneScan[OF zoneInv_init])
  show ?thesis
  proof (cases "zoneScan 0 number 0 0 3600 0")
    case (Inl e)
    then show ?thesis by (simp add: eq zoneResult_def)
  next
    case (Inr res)
    obtain z dg mu off where res: "res = (z, dg, mu, off)" by (cases res) auto
    from zoneScan_final_inv[OF zoneInv_init Inr[unfolded res]]
    have fin: "zoneInv (0 + length number) z dg mu off" .
    have p: "0 \<le> z * mu" "z * mu \<le> 3596400"
      by (rule zoneInv_product[OF fin])+
    have o: "0 \<le> off" "off \<le> 7192800"
      using fin by (auto simp: zoneInv_def split: if_splits)
    have w1: "int64 (z * mu) = z * mu"
      using p by (intro int64_nonneg) linarith+
    have w2: "int64 (off + z * mu) = off + z * mu"
      using p o by (intro int64_nonneg) linarith+
    have w3: "int64 (- (off + z * mu)) = - (off + z * mu)"
      using p o by (intro int64_small) linarith+
    show ?thesis
      unfolding eq Inr res zoneResult_def sum.case prod.case Let_def w1 w2 w3
      by simp
  qed
qed

lemma ParseISOZone_alt:
  "ParseISOZone inp =
     (let (r, i) = DecodeRune inp in
      if r = byte CHR ''Z'' then Inr UTC
      else if r \<noteq> byte CHR ''+'' \<and> r \<noteq> byte CHR ''-'' \<and> r \<noteq> 0x2212 then
        (if r = RuneError then Inl (UnexpectedCharacterError (byte CHR ''?''))
         else Inl (UnexpectedCharacterError r))
      else
        let neg = (r \<noteq> byte CHR ''+'') in
        if length inp < 3 then Inl ErrZoneTooShort
        else zoneResult neg inp (drop i inp))"
  unfolding ParseISOZone_def zone_tail_eq ..

lemma DecodeRune_plus: "DecodeRune (CHR ''+'' # rest) = (43, 1)"
  by (simp add: byte_def)

lemma DecodeRune_minus: "DecodeRune (CHR ''-'' # rest) = (45, 1)"
  by (simp add: byte_def)

lemma DecodeRune_uminus: "DecodeRune (uminus_sign @ rest) = (0x2212, 3)"
  by (simp add: byte_def inRange_def uminus_sign_def)

lemma ParseISOZone_plus:
  "ParseISOZone (CHR ''+'' # rest) =
     (if length rest < 2 then Inl ErrZoneTooShort else zoneResult False (CHR ''+'' # rest) rest)"
  by (simp add: ParseISOZone_alt DecodeRune_plus byte_def del: DecodeRune.simps)

lemma ParseISOZone_minus:
  "ParseISOZone (CHR ''-'' # rest) =
     (if length rest < 2 then Inl ErrZoneTooShort else zoneResult True (CHR ''-'' # rest) rest)"
  by (simp add: ParseISOZone_alt DecodeRune_minus byte_def del: DecodeRune.simps)

lemma ParseISOZone_uminus:
  "ParseISOZone (uminus_sign @ rest) = zoneResult True (uminus_sign @ rest) rest"
proof -
  have "length (uminus_sign @ rest) \<ge> 3" "drop 3 (uminus_sign @ rest) = rest"
    by (simp_all add: uminus_sign_def)
  then show ?thesis
    by (simp add: ParseISOZone_alt DecodeRune_uminus byte_def del: DecodeRune.simps)
qed

lemma zoneResult_not_short: "zoneResult neg inp number \<noteq> Inl ErrZoneTooShort"
  using zoneScan_not_short[of 0 number 0 0 3600 0]
  by (auto simp: zoneResult_def split: sum.splits)

text \<open>
  Claim C4, as the code has it: for an input that starts with a sign (\<open>+\<close>, \<open>-\<close> or the
  Unicode minus), \<open>ParseISOZone\<close> fails with the Zone-Too-Short error exactly when the
  whole input, sign included, has fewer than 3 bytes.
\<close>

theorem zone_too_short_iff:
  assumes "sg = ''+'' \<or> sg = ''-'' \<or> sg = uminus_sign"
  shows "ParseISOZone (sg @ rest) = Inl ErrZoneTooShort \<longleftrightarrow> length (sg @ rest) < 3"
  using assms
  by (auto simp: ParseISOZone_plus ParseISOZone_minus ParseISOZone_uminus zoneResult_not_short
       uminus_sign_def[THEN arg_cong, of length] split: if_splits)

theorem zone_too_short_iff_witness:
  "(''+'' = ''+'' \<or> ''+'' = ''-'' \<or> ''+'' = uminus_sign)
   \<and> ParseISOZone ''+0'' = Inl ErrZoneTooShort \<and> length ''+0'' < 3"
  using zone_too_short_iff[of "''+''" "''0''"] by simp

text \<open>
  Claim C4 as stated fails: after the sign of \<open>+01\<close> two bytes remain, fewer than 3, and
  the input is accepted as the zone of one hour east.
\<close>

theorem zone_too_short_counterexample:
  "length (drop 1 ''+01'') < 3 \<and> ParseISOZone ''+01'' = Inr (FixedZone ''+01'' 3600)"
  by code_simp

lemma zoneResult_groups:
  "zoneResult neg inp number = Inr l \<longleftrightarrow>
     (\<exists>h m s. zoneGroups number = Some (h, m, s)
        \<and> l = FixedZone inp ((if neg then - 1 else 1) * (h * 3600 + m * 60 + s))
        \<and> (neg \<longrightarrow> h * 3600 + m * 60 + s \<noteq> 0))"
proof (cases "zoneGroups number")
  case None
  then show ?thesis
    using zoneScan_rejects[OF None]
    by (auto simp: zoneResult_def split: sum.splits if_splits)
next
  case (Some g)
  obtain h m s where g: "g = (h, m, s)" by (cases g) auto
  from zoneScan_accepts[OF Some[unfolded g]]
  obtain z mu off where "zoneScan 0 number 0 0 3600 0 = Inr (z, 2, mu, off)"
    "off + z * mu = h * 3600 + m * 60 + s" by blast
  then show ?thesis
    by (auto simp: zoneResult_def Some g)
qed

lemma zoneResult_six_digits:
  "isDigit a \<Longrightarrow> isDigit b \<Longrightarrow> isDigit c \<Longrightarrow> isDigit d \<Longrightarrow> isDigit e \<Longrightarrow> isDigit f \<Longrightarrow>
   zoneResult neg inp [a, b, c, d, e, f] = Inl ErrZoneTooLong"
  by (simp add: zoneResult_def)

text \<open>
  Claim C5, as the code has it. After the sign, \<open>ParseISOZone\<close> accepts exactly the
  spellings \<open>hh\<close>, \<open>hhmm\<close>, \<open>hh:mm\<close>, \<open>hh:mmss\<close> and \<open>hh:mm:ss\<close> of two-digit groups
  (\<open>zoneGroups\<close>), and returns the zone named by the whole input whose offset is
  \<open>hours * 3600 + minutes * 60 + seconds\<close> with the sign applied, a negative sign with
  offset zero excepted. The group boundaries are the fixed positions 2 and 5 after the
  sign, so every six-digit spelling \<open>hhmmss\<close> without colons fails with the
  Zone-Too-Long error.
\<close>

theorem zone_offset_groups:
  assumes "sg = ''+'' \<or> sg = ''-'' \<or> sg = uminus_sign"
  shows "(ParseISOZone (sg @ number) = Inr l \<longleftrightarrow>
           (\<exists>h m s. zoneGroups number = Some (h, m, s)
              \<and> l = FixedZone (sg @ number)
                     ((if sg = ''+'' then 1 else - 1) * (h * 3600 + m * 60 + s))
              \<and> (sg = ''+'' \<or> h * 3600 + m * 60 + s \<noteq> 0)))
         \<and> (isDigit a \<and> isDigit b \<and> isDigit c \<and> isDigit d \<and> isDigit e \<and> isDigit f \<longrightarrow>
              ParseISOZone (sg @ [a, b, c, d, e, f]) = Inl ErrZoneTooLong)"
proof -
  have short: "length number < 2 \<Longrightarrow> zoneGroups number = None"
    by (auto simp: zoneGroups_def split: list.splits)
  have um: "uminus_sign \<noteq> ''+''"
    by (simp add: uminus_sign_def)
  have first: "ParseISOZone (sg @ number) = Inr l \<longleftrightarrow>
           (\<exists>h m s. zoneGroups number = Some (h, m, s)
              \<and> l = FixedZone (sg @ number)
                     ((if sg = ''+'' then 1 else - 1) * (h * 3600 + m * 60 + s))
              \<and> (sg = ''+'' \<or> h * 3600 + m * 60 + s \<noteq> 0))"
    using assms short
    by (auto simp: ParseISOZone_plus ParseISOZone_minus ParseISOZone_uminus zoneResult_groups um)
  have second: "isDigit a \<and> isDigit b \<and> isDigit c \<and> isDigit d \<and> isDigit e \<and> isDigit f \<longrightarrow>
              ParseISOZone (sg @ [a, b, c, d, e, f]) = Inl ErrZoneTooLong"
    using assms
    by (auto simp: ParseISOZone_plus ParseISOZone_minus ParseISOZone_uminus
        zoneResult_six_digits)
  from first second show ?thesis by blast
qed

theorem zone_offset_groups_witness:
  "(''-'' = ''+'' \<or> ''-'' = ''-'' \<or> ''-'' = uminus_sign)
   \<and> zoneGroups ''01:02:03'' = Some (1, 2, 3)
   \<and> ParseISOZone ''-01:02:03'' = Inr (FixedZone ''-01:02:03'' (- 3723))
   \<and> ParseISOZone ''-010203'' = Inl ErrZoneTooLong"
proof -
  have g: "zoneGroups ''01:02:03'' = Some (1, 2, 3)"
    by (simp add: zoneGroups_def isDigit_def two_def byte_def charStart_def)
  have d: "isDigit CHR ''0'' \<and> isDigit CHR ''1'' \<and> isDigit CHR ''0'' \<and> isDigit CHR ''2''
     \<and> isDigit CHR ''0'' \<and> isDigit CHR ''3''"
    by (simp add: isDigit_def)
  show ?thesis
    using zone_offset_groups[of "''-''" "''01:02:03''" "FixedZone ''-01:02:03'' (- 3723)"
        "CHR ''0''" "CHR ''1''" "CHR ''0''" "CHR ''2''" "CHR ''0''" "CHR ''3''"] g d
    by simp
qed

text \<open>
  Claim C5 as stated fails: the well-formed six-digit spelling \<open>+010203\<close> is not parsed
  to the offset 3723 but rejected with the Zone-Too-Long error.
\<close>

theorem zone_six_digits_counterexample:
  "ParseISOZone ''+010203'' \<noteq> Inr (FixedZone ''+010203'' (1 * 3600 + 2 * 60 + 3))
   \<and> ParseISOZone ''+010203'' = Inl ErrZoneTooLong"
  by code_simp

text \<open>
  Claim C6: a negative sign (\<open>-\<close> or the Unicode minus) before digits of magnitude zero
  is rejected with the Invalid-Zone error: whenever the same digits after \<open>+\<close> parse to
  the offset 0, they fail after a negative sign, and no input with a negative sign
  yields a zone of offset 0. In particular \<open>-00\<close>, \<open>-0000\<close> and \<open>-00:00\<close> fail with
  Invalid-Zone, \<open>+00:00\<close> succeeds with offset 0, and \<open>Z\<close> yields UTC whatever follows it.
\<close>

theorem negative_zero_rejected:
  "(ParseISOZone (CHR ''+'' # number) = Inr (FixedZone (CHR ''+'' # number) 0) \<longrightarrow>
       ParseISOZone (CHR ''-'' # number) = Inl ErrInvalidZone
     \<and> ParseISOZone (uminus_sign @ number) = Inl ErrInvalidZone)
   \<and> ParseISOZone (CHR ''-'' # number) \<noteq> Inr (FixedZone name 0)
   \<and> ParseISOZone (uminus_sign @ number) \<noteq> Inr (FixedZone name 0)
   \<and> ParseISOZone ''-00'' = Inl ErrInvalidZone
   \<and> ParseISOZone ''-0000'' = Inl ErrInvalidZone
   \<and> ParseISOZone ''-00:00'' = Inl ErrInvalidZone
   \<and> ParseISOZone ''+00:00'' = Inr (FixedZone ''+00:00'' 0)
   \<and> ParseISOZone (CHR ''Z'' # rest) = Inr UTC"
proof -
  have a: "ParseISOZone (CHR ''+'' # number) = Inr (FixedZone (CHR ''+'' # number) 0) \<longrightarrow>
       ParseISOZone (CHR ''-'' # number) = Inl ErrInvalidZone
     \<and> ParseISOZone (uminus_sign @ number) = Inl ErrInvalidZone"
    by (auto simp: ParseISOZone_plus ParseISOZone_minus ParseISOZone_uminus zoneResult_def
        split: if_splits sum.splits)
  have b: "ParseISOZone (CHR ''-'' # number) \<noteq> Inr (FixedZone name 0)"
    by (auto simp: ParseISOZone_minus zoneResult_def split: if_splits sum.splits)
  have c: "ParseISOZone (uminus_sign @ number) \<noteq> Inr (FixedZone name 0)"
    by (auto simp: ParseISOZone_uminus zoneResult_def split: if_splits sum.splits)
  have d: "ParseISOZone ''-00'' = Inl ErrInvalidZone" by code_simp
  have e: "ParseISOZone ''-0000'' = Inl ErrInvalidZone" by code_simp
  have f: "ParseISOZone ''-00:00'' = Inl ErrInvalidZone" by code_simp
  have g: "ParseISOZone ''+00:00'' = Inr (FixedZone ''+00:00'' 0)" by code_simp
  have h: "ParseISOZone (CHR ''Z'' # rest) = Inr UTC"
    by (simp add: ParseISOZone_alt byte_def)
  from a b c d e f g h show ?thesis by blast
qed

theorem negative_zero_rejected_witness:
  "ParseISOZone ''+0000'' = Inr (FixedZone ''+0000'' 0)
   \<and> ParseISOZone ''-0000'' = Inl ErrInvalidZone
   \<and> ParseISOZone (uminus_sign @ ''0000'') = Inl ErrInvalidZone"
proof -
  have p: "ParseISOZone ''+0000'' = Inr (FixedZone ''+0000'' 0)" by code_simp
  show ?thesis
    using negative_zero_rejected[of "''0000''" "''x''" "''y''"] p by simp
qed

section \<open>The scanner\<close>

text \<open>
  Claim C1 does not hold of the code: at \<open>:\<close> with the cursor at the second field the
  accumulator goes to the minute field. On \<open>2017-04-24T09:41:34:\<close> the minute 41 is
  overwritten by 34 and the second field stays 0, where the claim asks for second 34 and
  minute 41.
\<close>

theorem colon_at_second_overwrites_minute:
  "Parse ''2017-04-24T09:41:34:'' = Inr (Date 2017 4 24 9 34 0 0 UTC)"
  by code_simp

lemma scanLoop_scanTo:
  "scanTo st pre suf = Some st1 \<Longrightarrow> scanLoop st (pre @ suf) = scanLoop st1 suf"
  by (induction pre arbitrary: st) (auto split: step.splits)

lemma isDigit_cases:
  "isDigit ch \<Longrightarrow> ch \<noteq> CHR ''-'' \<and> ch \<noteq> CHR ''+'' \<and> ch \<noteq> CHR ''T'' \<and> ch \<noteq> CHR '':''
     \<and> ch \<noteq> CHR ''.'' \<and> ch \<noteq> CHR ''Z''"
  by (auto simp: isDigit_def)

lemma Z_not_digit [simp]: "\<not> isDigit CHR ''Z''"
  by (simp add: isDigit_def)

lemma scanStep_Z:
  "scanStep st CHR ''Z'' rest =
     (if vp st \<noteq> hour \<and> vp st \<noteq> minute \<and> vp st \<noteq> second \<and> vp st \<noteq> millisecond
      then Fail (UnexpectedCharacterError (byte CHR ''Z''))
      else if rest \<noteq> [] then Fail ErrRemainingData
      else Continue (closeField st))"
  by (simp add: scanStep_def isDigit_def closeField_def Let_def)

lemma scanStep_Continue_loc:
  "scanStep st ch rest = Continue st1 \<Longrightarrow> vloc st1 = vloc st"
  by (auto simp: scanStep_def Let_def split: if_splits sum.splits)

lemma scanTo_loc: "scanTo st pre suf = Some st1 \<Longrightarrow> vloc st1 = vloc st"
  by (induction pre arbitrary: st) (auto split: step.splits dest: scanStep_Continue_loc)

lemma zoneScan_no_Z:
  "zoneScan i s z dg mu off = Inr r \<Longrightarrow> CHR ''Z'' \<notin> set s"
proof (induction s arbitrary: i z dg mu off)
  case Nil
  then show ?case by simp
next
  case (Cons ch s)
  show ?case
  proof (cases "i = 2 \<or> i = 5")
    case True
    then show ?thesis using Cons
      by (auto simp add: zoneScan_boundary isDigit_cases simp del: zoneScan.simps split: if_splits)
  next
    case False
    then show ?thesis using Cons 
      by (auto simp add: zoneScan_inner isDigit_cases simp del: zoneScan.simps split: if_splits)
  qed
qed

lemma ParseISOZone_no_Z:
  "ParseISOZone (CHR ''+'' # rest) = Inr l \<Longrightarrow> CHR ''Z'' \<notin> set rest"
  "ParseISOZone (CHR ''-'' # rest) = Inr l \<Longrightarrow> CHR ''Z'' \<notin> set rest"
  by (auto simp: ParseISOZone_plus ParseISOZone_minus zoneResult_def
      split: if_splits sum.splits dest: zoneScan_no_Z)

lemma scanStep_Break_no_Z:
  "scanStep st ch rest = Break st1 \<Longrightarrow> CHR ''Z'' \<notin> set (ch # rest)"
  by (auto simp: scanStep_def Let_def split: if_splits sum.splits dest: ParseISOZone_no_Z)

lemma scanStep_Continue_Z:
  "scanStep st CHR ''Z'' rest = Continue st1 \<Longrightarrow> rest = []"
  by (auto simp: scanStep_Z split: if_splits)

lemma scanLoop_Z_last:
  "scanLoop st s = Inr st1 \<Longrightarrow> CHR ''Z'' \<in> set s \<Longrightarrow> last s = CHR ''Z'' \<and> vloc st1 = vloc st"
proof (induction s arbitrary: st)
  case Nil
  then show ?case by simp
next
  case (Cons ch s)
  show ?case
  proof (cases "scanStep st ch s")
    case (Continue st2)
    show ?thesis
    proof (cases "ch = CHR ''Z''")
      case True
      with Continue have s: "s = []" by (auto dest: scanStep_Continue_Z)
      from Cons.prems(1) Continue s have "st1 = st2" by simp
      with scanStep_Continue_loc[OF Continue] s True show ?thesis by simp
    next
      case False
      with Cons.prems Continue have *: "scanLoop st2 s = Inr st1" "CHR ''Z'' \<in> set s"
        by auto
      then have "s \<noteq> []" by auto
      with Cons.IH[OF *] scanStep_Continue_loc[OF Continue] show ?thesis
        by simp
    qed
  next
    case (Break st2)
    then show ?thesis using Cons.prems by (auto dest: scanStep_Break_no_Z)
  next
    case (Fail e)
    then show ?thesis using Cons.prems by simp
  qed
qed

lemma finish_loc: "finish inp st = Inr t \<Longrightarrow> Location t = vloc st"
  by (auto simp: finish_def Let_def captureRemaining_def Date_def split: if_splits)


text \<open>
  Claim C8. When the scanner reaches a \<open>Z\<close> with the cursor at hour, minute, second or
  fraction (after reading \<open>pre\<close> from the start without leaving the loop), then: if
  bytes follow the \<open>Z\<close>, \<open>Parse\<close> fails with the Remaining-Data error; if the \<open>Z\<close>
  is the final byte, the loop ends in the state with the open field closed (the
  accumulator stored there and reset) and the zone UTC, and the result is built from that
  state. Moreover no input with a \<open>Z\<close> anywhere but at its end yields a value, and a
  value parsed from an input with a \<open>Z\<close> is in UTC.
\<close>

theorem Z_closes_field_and_ends_input:
  assumes "scanTo initScan pre (CHR ''Z'' # rest) = Some st"
    and "vp st = hour \<or> vp st = minute \<or> vp st = second \<or> vp st = millisecond"
  shows "(rest \<noteq> [] \<longrightarrow> Parse (pre @ CHR ''Z'' # rest) = Inl ErrRemainingData)
     \<and> (rest = [] \<longrightarrow>
          scanLoop initScan (pre @ ''Z'') = Inr (closeField st)
        \<and> vloc (closeField st) = UTC
        \<and> Parse (pre @ ''Z'') = finish (pre @ ''Z'') (closeField st))
     \<and> (\<forall>t. Parse inp = Inr t \<and> CHR ''Z'' \<in> set inp \<longrightarrow>
          last inp = CHR ''Z'' \<and> Location t = UTC)"
proof -
  have loop: "scanLoop initScan (pre @ CHR ''Z'' # rest) = scanLoop st (CHR ''Z'' # rest)"
    using scanLoop_scanTo[OF assms(1)] .
  have loc: "vloc st = UTC"
    using scanTo_loc[OF assms(1)] by (simp add: initScan_def)
  have a: "rest \<noteq> [] \<longrightarrow> Parse (pre @ CHR ''Z'' # rest) = Inl ErrRemainingData"
    using assms(2) by (auto simp: Parse_def loop scanStep_Z)
  have b: "rest = [] \<longrightarrow>
          scanLoop initScan (pre @ ''Z'') = Inr (closeField st)
        \<and> vloc (closeField st) = UTC
        \<and> Parse (pre @ ''Z'') = finish (pre @ ''Z'') (closeField st)"
    using assms(2) loop loc by (auto simp: Parse_def scanStep_Z closeField_def)
  have c: "\<forall>t. Parse inp = Inr t \<and> CHR ''Z'' \<in> set inp \<longrightarrow>
          last inp = CHR ''Z'' \<and> Location t = UTC"
  proof (intro allI impI)
    fix t assume h: "Parse inp = Inr t \<and> CHR ''Z'' \<in> set inp"
    then obtain st1 where s1: "scanLoop initScan inp = Inr st1" and f: "finish inp st1 = Inr t"
      by (auto simp: Parse_def split: sum.splits)
    from scanLoop_Z_last[OF s1] h have "last inp = CHR ''Z''" "vloc st1 = UTC"
      by (simp_all add: initScan_def)
    with finish_loc[OF f] show "last inp = CHR ''Z'' \<and> Location t = UTC" by simp
  qed
  from a b c show ?thesis by blast
qed

theorem Z_closes_field_and_ends_input_witness:
  "Parse ''2017-04-24T09:41:34Z+01:00'' = Inl ErrRemainingData
   \<and> Parse ''2017-04-24T09:41:34Z'' = Inr (Date 2017 4 24 9 41 34 0 UTC)"
proof -
  let ?st = "\<lparr>vY = 2017, vM = 4, vd = 24, vh = 9, vm = 41, vs = 0, vfraction = 0,
               vnfraction = 1, vloc = UTC, vc = 34, vp = second\<rparr>"
  have p: "vp ?st = hour \<or> vp ?st = minute \<or> vp ?st = second \<or> vp ?st = millisecond"
    by simp
  have h1: "scanTo initScan ''2017-04-24T09:41:34'' (CHR ''Z'' # ''+01:00'') = Some ?st"
    by code_simp
  have h2: "scanTo initScan ''2017-04-24T09:41:34'' (CHR ''Z'' # []) = Some ?st"
    by code_simp
  have f: "finish ''2017-04-24T09:41:34Z'' (closeField ?st) = Inr (Date 2017 4 24 9 41 34 0 UTC)"
    by code_simp
  show ?thesis
    using Z_closes_field_and_ends_input[OF h1 p] Z_closes_field_and_ends_input[OF h2 p] f
    by simp
qed

section \<open>Validation of the fields\<close>

lemma zoneScan_error: "zoneScan i s z dg mu off = Inl e \<Longrightarrow> scanError e"
proof (induction s arbitrary: i z dg mu off)
  case Nil
  then show ?case by simp
next
  case (Cons ch s)
  show ?case
  proof (cases "i = 2 \<or> i = 5")
    case True
    then show ?thesis using Cons
      by (auto simp add: zoneScan_boundary simp del: zoneScan.simps split: if_splits)
  next
    case False
    then show ?thesis using Cons
      by (auto simp add: zoneScan_inner simp del: zoneScan.simps split: if_splits)
  qed
qed

lemma zoneResult_error: "zoneResult neg inp number = Inl e \<Longrightarrow> scanError e"
  by (cases "zoneScan 0 number 0 0 3600 0")
    (auto simp: zoneResult_def split: if_splits dest: zoneScan_error)

lemma ParseISOZone_error: "ParseISOZone inp = Inl e \<Longrightarrow> scanError e"
proof -
  assume h: "ParseISOZone inp = Inl e"
  obtain r i where d: "DecodeRune inp = (r, i)" by (cases "DecodeRune inp")
  show ?thesis
    using h d zoneResult_error[of "r \<noteq> byte CHR ''+''" inp "drop i inp" e]
    by (auto simp: ParseISOZone_alt Let_def split: if_splits)
qed

lemma scanStep_error: "scanStep st ch rest = Fail e \<Longrightarrow> scanError e"
proof -
  assume h: "scanStep st ch rest = Fail e"
  show ?thesis
  proof (cases "ParseISOZone (ch # rest)")
    case (Inl e1)
    with ParseISOZone_error[OF Inl] h show ?thesis
      by (auto simp add: scanStep_def Let_def split: if_splits)
  next
    case (Inr l)
    with h show ?thesis
      by (auto simp add: scanStep_def Let_def split: if_splits)
  qed
qed

lemma scanLoop_error: "scanLoop st s = Inl e \<Longrightarrow> scanError e"
  by (induction s arbitrary: st) (auto split: step.splits dest: scanStep_error)

lemma finish_range:
  "finish inp st0 = Inl (RangeError v el mn mx g) \<Longrightarrow>
     v = inp \<and> (g < mn \<or> mx < g)
     \<and> el \<in> {''month'', ''day'', ''hour'', ''minute'', ''second''}"
  by (auto simp: finish_def Let_def split: if_splits)

text \<open>
  Claim C7. Once the loop has ended and the fraction has passed its test, the fields
  are validated in the order month, day, hour, minute, second, and the first field out of
  range decides the error: a month outside 1..12 gives the month error whatever the other
  fields are, a day outside 1..\<open>daysIn\<close> gives the day error when the month is in range,
  and so on. Every Range error that \<open>Parse\<close> returns carries the whole input text, one
  of the five element names, and a given value outside the bounds it reports. The days
  of February follow the Gregorian leap rule, so \<open>2019-02-29T00:00:00.000+00:00\<close> fails
  on the day with given 29 and bounds 1..28, and \<open>2020-02-30T00:00:00.000+00:00\<close> fails
  with given 30 and bounds 1..29.
\<close>

theorem validation_order:
  assumes "scanLoop initScan inp = Inr st0"
    and "st = captureRemaining st0"
    and "0 \<le> vfraction st \<and> vfraction st < 1000000000"
  shows "(vM st < 1 \<or> 12 < vM st \<longrightarrow>
            Parse inp = Inl (RangeError inp ''month'' 1 12 (vM st)))
     \<and> (1 \<le> vM st \<and> vM st \<le> 12 \<and> (vd st < 1 \<or> daysIn (vM st) (vY st) < vd st) \<longrightarrow>
            Parse inp = Inl (RangeError inp ''day'' 1 (daysIn (vM st) (vY st)) (vd st)))
     \<and> (1 \<le> vM st \<and> vM st \<le> 12 \<and> 1 \<le> vd st \<and> vd st \<le> daysIn (vM st) (vY st)
          \<and> 23 < vh st \<longrightarrow>
            Parse inp = Inl (RangeError inp ''hour'' 0 23 (vh st)))
     \<and> (1 \<le> vM st \<and> vM st \<le> 12 \<and> 1 \<le> vd st \<and> vd st \<le> daysIn (vM st) (vY st)
          \<and> vh st \<le> 23 \<and> 59 < vm st \<longrightarrow>
            Parse inp = Inl (RangeError inp ''minute'' 0 59 (vm st)))
     \<and> (1 \<le> vM st \<and> vM st \<le> 12 \<and> 1 \<le> vd st \<and> vd st \<le> daysIn (vM st) (vY st)
          \<and> vh st \<le> 23 \<and> vm st \<le> 59 \<and> 59 < vs st \<longrightarrow>
            Parse inp = Inl (RangeError inp ''second'' 0 59 (vs st)))
     \<and> (\<forall>src v el mn mx g. Parse src = Inl (RangeError v el mn mx g) \<longrightarrow>
            v = src \<and> (g < mn \<or> mx < g)
            \<and> el \<in> {''month'', ''day'', ''hour'', ''minute'', ''second''})
     \<and> daysIn 2 y = (if y mod 4 = 0 \<and> (y mod 100 \<noteq> 0 \<or> y mod 400 = 0) then 29 else 28)
     \<and> Parse ''2019-02-29T00:00:00.000+00:00''
          = Inl (RangeError ''2019-02-29T00:00:00.000+00:00'' ''day'' 1 28 29)
     \<and> Parse ''2020-02-30T00:00:00.000+00:00''
          = Inl (RangeError ''2020-02-30T00:00:00.000+00:00'' ''day'' 1 29 30)"
proof -
  have P0: "Parse inp = finish inp st0"
    using assms(1) by (simp add: Parse_def)
  have F: "\<not> (vfraction (captureRemaining st0) < 0 \<or> 1000000000 \<le> vfraction (captureRemaining st0))"
    using assms(2,3) by simp
  have P: "Parse inp =
     (if vM st < 1 \<or> vM st > 12 then
        Inl (RangeError inp ''month'' 1 12 (vM st))
      else if vd st < 1 \<or> vd st > daysIn (vM st) (vY st) then
        Inl (RangeError inp ''day'' 1 (daysIn (vM st) (vY st)) (vd st))
      else if vh st > 23 then
        Inl (RangeError inp ''hour'' 0 23 (vh st))
      else if vm st > 59 then
        Inl (RangeError inp ''minute'' 0 59 (vm st))
      else if vs st > 59 then
        Inl (RangeError inp ''second'' 0 59 (vs st))
      else Inr (Date (vY st) (vM st) (vd st) (vh st) (vm st) (vs st)
             (scaleLoop (nat (10 - vnfraction st)) (vfraction st)) (vloc st)))"
    unfolding P0 finish_def Let_def assms(2) using F by (simp only: if_False)
  have a: "vM st < 1 \<or> 12 < vM st \<longrightarrow>
            Parse inp = Inl (RangeError inp ''month'' 1 12 (vM st))"
    by (simp add: P)
  have b: "1 \<le> vM st \<and> vM st \<le> 12 \<and> (vd st < 1 \<or> daysIn (vM st) (vY st) < vd st) \<longrightarrow>
            Parse inp = Inl (RangeError inp ''day'' 1 (daysIn (vM st) (vY st)) (vd st))"
    by (simp add: P)
  have c: "1 \<le> vM st \<and> vM st \<le> 12 \<and> 1 \<le> vd st \<and> vd st \<le> daysIn (vM st) (vY st)
          \<and> 23 < vh st \<longrightarrow>
            Parse inp = Inl (RangeError inp ''hour'' 0 23 (vh st))"
    by (simp add: P)
  have d: "1 \<le> vM st \<and> vM st \<le> 12 \<and> 1 \<le> vd st \<and> vd st \<le> daysIn (vM st) (vY st)
          \<and> vh st \<le> 23 \<and> 59 < vm st \<longrightarrow>
            Parse inp = Inl (RangeError inp ''minute'' 0 59 (vm st))"
    by (simp add: P)
  have e: "1 \<le> vM st \<and> vM st \<le> 12 \<and> 1 \<le> vd st \<and> vd st \<le> daysIn (vM st) (vY st)
          \<and> vh st \<le> 23 \<and> vm st \<le> 59 \<and> 59 < vs st \<longrightarrow>
            Parse inp = Inl (RangeError inp ''second'' 0 59 (vs st))"
    by (simp add: P)
  have f: "\<forall>src v el mn mx g. Parse src = Inl (RangeError v el mn mx g) \<longrightarrow>
            v = src \<and> (g < mn \<or> mx < g)
            \<and> el \<in> {''month'', ''day'', ''hour'', ''minute'', ''second''}"
  proof (intro allI impI)
    fix src v el mn mx g
    assume h: "Parse src = Inl (RangeError v el mn mx g)"
    then obtain s1 where s1: "finish src s1 = Inl (RangeError v el mn mx g)"
      using scanLoop_error[of initScan src "RangeError v el mn mx g"]
      by (auto simp: Parse_def split: sum.splits)
    show "v = src \<and> (g < mn \<or> mx < g)
            \<and> el \<in> {''month'', ''day'', ''hour'', ''minute'', ''second''}"
      by (rule finish_range[OF s1])
  qed
  have g: "daysIn 2 y = (if y mod 4 = 0 \<and> (y mod 100 \<noteq> 0 \<or> y mod 400 = 0) then 29 else 28)"
    by (simp add: daysIn_def isLeap_def)
  have h: "Parse ''2019-02-29T00:00:00.000+00:00''
          = Inl (RangeError ''2019-02-29T00:00:00.000+00:00'' ''day'' 1 28 29)"
    by code_simp
  have i: "Parse ''2020-02-30T00:00:00.000+00:00''
          = Inl (RangeError ''2020-02-30T00:00:00.000+00:00'' ''day'' 1 29 30)"
    by code_simp
  show ?thesis by (intro conjI a b c d e f g h i)
qed


theorem validation_order_witness:
  "Parse ''2017-13-32T24:60:60'' = Inl (RangeError ''2017-13-32T24:60:60'' ''month'' 1 12 13)
   \<and> Parse ''2017-12-32T24:60:60'' = Inl (RangeError ''2017-12-32T24:60:60'' ''day'' 1 31 32)
   \<and> Parse ''2017-12-31T24:60:60'' = Inl (RangeError ''2017-12-31T24:60:60'' ''hour'' 0 23 24)
   \<and> Parse ''2017-12-31T23:60:60'' = Inl (RangeError ''2017-12-31T23:60:60'' ''minute'' 0 59 60)
   \<and> Parse ''2017-12-31T23:59:60'' = Inl (RangeError ''2017-12-31T23:59:60'' ''second'' 0 59 60)"
proof -
  let ?st = "\<lambda>M d h m. \<lparr>vY = 2017, vM = M, vd = d, vh = h, vm = m, vs = 0, vfraction = 0,
               vnfraction = 1, vloc = UTC, vc = 60, vp = second\<rparr>"
  let ?cs = "\<lambda>M d h m. \<lparr>vY = 2017, vM = M, vd = d, vh = h, vm = m, vs = 60, vfraction = 0,
               vnfraction = 1, vloc = UTC, vc = 60, vp = second\<rparr>"
  have c: "?cs M d h m = captureRemaining (?st M d h m)" for M d h m
    by (simp add: captureRemaining_def cursor_defs)
  have s1: "scanLoop initScan ''2017-13-32T24:60:60'' = Inr (?st 13 32 24 60)" by code_simp
  have s2: "scanLoop initScan ''2017-12-32T24:60:60'' = Inr (?st 12 32 24 60)" by code_simp
  have s3: "scanLoop initScan ''2017-12-31T24:60:60'' = Inr (?st 12 31 24 60)" by code_simp
  have s4: "scanLoop initScan ''2017-12-31T23:60:60'' = Inr (?st 12 31 23 60)" by code_simp
  have s5: "scanLoop initScan ''2017-12-31T23:59:60'' = Inr (?st 12 31 23 59)" by code_simp
  have d: "daysIn 12 2017 = 31" by (simp add: daysIn_def)
  show ?thesis
    using validation_order[OF s1 c] validation_order[OF s2 c] validation_order[OF s3 c]
      validation_order[OF s4 c] validation_order[OF s5 c] d
    by simp
qed

section \<open>The fraction of a second\<close>

lemma scanStep_digit:
  "isDigit ch \<Longrightarrow> scanStep st ch rest =
     Continue (st\<lparr>vc := int64 (int64 (vc st * 10) + (int (byte ch) - charStart)),
                  vnfraction := (if vp st = millisecond then vnfraction st + 1
                                 else vnfraction st)\<rparr>)"
  by (simp add: scanStep_def)

lemma scaleLoop_pow:
  "0 \<le> f \<Longrightarrow> f * 10 ^ n < 2 ^ 63 \<Longrightarrow> scaleLoop n f = f * 10 ^ n"
proof (induction n arbitrary: f)
  case 0
  then show ?case by simp
next
  case (Suc n)
  have le: "f * 10 \<le> f * 10 ^ Suc n"
    using Suc.prems(1) by (simp add: mult_left_mono)
  then have "int64 (f * 10) = f * 10"
    using Suc.prems by (intro int64_id) auto
  moreover have "scaleLoop n (f * 10) = f * 10 * 10 ^ n"
    using Suc.prems by (intro Suc.IH) (auto simp: mult.assoc)
  ultimately show ?case by (simp add: mult.assoc)
qed

lemma digit_acc_bound:
  assumes "0 \<le> c" "c < 10 ^ n" "n \<le> 17" "0 \<le> d" "d \<le> 9"
  shows "int64 (int64 (c * 10) + d) = c * 10 + d"
proof -
  have "(10::int) ^ n \<le> 10 ^ 17" using assms(3) by (intro power_increasing) auto
  with assms have c: "c < 10 ^ 17" by linarith
  have "int64 (c * 10) = c * 10" using assms(1) c by (intro int64_id) auto
  moreover have "int64 (c * 10 + d) = c * 10 + d" using assms(1,4,5) c by (intro int64_id) auto
  ultimately show ?thesis by simp
qed
















text \<open>
  With more than nine fraction digits and an accumulated value below 1e9 the loop that
  scales the fraction does not run: ten digits \<open>0000000010\<close> give 10 nanoseconds.
\<close>

lemma excess_fraction_digits_not_rescaled:
  "Parse ''2017-04-24T09:41:34.0000000010'' = Inr (Date 2017 4 24 9 41 34 10 UTC)"
  by code_simp


section \<open>The round trip through the encoding\<close>

declare natDigits.simps [simp del]

lemma digitChar_nth: "d < 10 \<Longrightarrow> digitChar d = ''0123456789'' ! d"
proof -
  assume "d < 10"
  then have "d = 0 \<or> d = 1 \<or> d = 2 \<or> d = 3 \<or> d = 4 \<or> d = 5 \<or> d = 6 \<or> d = 7 \<or> d = 8 \<or> d = 9"
    by arith
  then show ?thesis
    by (auto simp: digitChar_def char_of_eq_iff take_bit_eq_mod)
qed

lemma isDigit_digitChar: "d < 10 \<Longrightarrow> isDigit (digitChar d)"
proof -
  assume d: "d < 10"
  then have "''0123456789'' ! d \<in> set ''0123456789''"
    by (intro nth_mem) simp
  then show ?thesis by (simp only: digitChar_nth[OF d] isDigit_def)
qed

lemma byte_digitChar: "d < 10 \<Longrightarrow> byte (digitChar d) = 48 + d"
  by (simp add: digitChar_def byte_def)

lemma digitChar_zero: "digitChar 0 = CHR ''0''"
  by (simp add: digitChar_nth)

lemma digitChar_eq_zero: "d < 10 \<Longrightarrow> digitChar d = CHR ''0'' \<longleftrightarrow> d = 0"
proof -
  assume d: "d < 10"
  have "digitChar d = CHR ''0'' \<longleftrightarrow> (of_char (digitChar d) :: nat) = of_char CHR ''0''"
    by (simp only: of_char_eq_iff)
  then show ?thesis using byte_digitChar[OF d] by (simp add: byte_def)
qed

lemma padded_zero: "padded w 0 = replicate w CHR ''0''"
  by (induction w) (simp_all add: digitChar_zero replicate_append_same)

lemma length_padded [simp]: "length (padded w n) = w"
  by (induction w arbitrary: n) simp_all

lemma natDigits_padded:
  "1 \<le> w \<Longrightarrow> n < 10 ^ w \<Longrightarrow>
   replicate (w - length (natDigits n)) CHR ''0'' @ natDigits n = padded w n"
proof (induction w arbitrary: n)
  case 0
  then show ?case by simp
next
  case (Suc w)
  show ?case
  proof (cases "n < 10")
    case True
    then show ?thesis
      by (simp add: natDigits.simps[of n] padded_zero)
  next
    case False
    then have w: "1 \<le> w" using Suc.prems by (cases w) auto
    have lt: "n div 10 < 10 ^ w" using Suc.prems(2) by (simp add: less_mult_imp_div_less mult.commute)
    have len: "length (natDigits (n div 10)) \<le> w"
      using arg_cong[OF Suc.IH[OF w lt], of length] by simp
    from False have nd: "natDigits n = natDigits (n div 10) @ [digitChar (n mod 10)]"
      by (simp add: natDigits.simps[of n])
    have "Suc w - length (natDigits n) = w - length (natDigits (n div 10))"
      by (simp add: nd)
    then show ?thesis
      using Suc.IH[OF w lt] by (simp add: nd)
  qed
qed

lemma appendInt_padded:
  "1 \<le> w \<Longrightarrow> 0 \<le> x \<Longrightarrow> x < 10 ^ w \<Longrightarrow> appendInt x w = padded w (nat x)"
proof -
  assume a: "1 \<le> w" "0 \<le> x" "x < 10 ^ w"
  then have "nat x < 10 ^ w"
    by (metis nat_less_iff of_nat_numeral of_nat_power)
  from natDigits_padded[OF a(1) this] a(2) show ?thesis
    by (simp add: appendInt_def Let_def)
qed


lemma scanTo_app:
  "scanTo st (a @ b) suf =
     (case scanTo st a (b @ suf) of None \<Rightarrow> None | Some st1 \<Rightarrow> scanTo st1 b suf)"
  by (induction a arbitrary: st) (auto split: step.splits)

lemma scanTo_digit:
  assumes "isDigit ch" "0 \<le> vc st" "vc st < 10 ^ 17"
  shows "scanTo st [ch] suf =
     Some (st\<lparr>vc := vc st * 10 + (int (byte ch) - charStart),
              vnfraction := (if vp st = millisecond then vnfraction st + 1
                             else vnfraction st)\<rparr>)"
proof -
  have "int64 (int64 (vc st * 10) + (int (byte ch) - charStart))
        = vc st * 10 + (int (byte ch) - charStart)"
    using digit_value[OF assms(1)] by (intro digit_acc_bound[OF assms(2,3)]) auto
  then show ?thesis
    using assms(1) by (simp add: scanStep_digit)
qed

lemma scanTo_padded:
  "vc st = 0 \<Longrightarrow> w \<le> 17 \<Longrightarrow>
   scanTo st (padded w n) suf =
     Some (st\<lparr>vc := int (n mod 10 ^ w),
              vnfraction := (if vp st = millisecond then vnfraction st + int w
                             else vnfraction st)\<rparr>)"
proof (induction w arbitrary: n suf)
  case 0
  then show ?case by simp
next
  case (Suc w)
  let ?d = "digitChar (n mod 10)"
  let ?st1 = "st\<lparr>vc := int (n div 10 mod 10 ^ w),
              vnfraction := (if vp st = millisecond then vnfraction st + int w
                             else vnfraction st)\<rparr>"
  have ih: "scanTo st (padded w (n div 10)) ([?d] @ suf) = Some ?st1"
    using Suc.IH[OF Suc.prems(1)] Suc.prems(2) by simp
  have d: "isDigit ?d" by (simp add: isDigit_digitChar)
  have "n div 10 mod 10 ^ w < 10 ^ w" by simp
  also have "(10::nat) ^ w \<le> 10 ^ 17" using Suc.prems(2) by (intro power_increasing) auto
  finally have "int (n div 10 mod 10 ^ w) < 10 ^ 17"
    by (metis of_nat_less_iff of_nat_numeral of_nat_power)
  then have b: "0 \<le> vc ?st1" "vc ?st1 < 10 ^ 17" by simp_all
  have val: "int (n div 10 mod 10 ^ w) * 10 + (int (byte ?d) - charStart) = int (n mod 10 ^ Suc w)"
  proof -
    have "n mod (10 * 10 ^ w) = 10 * (n div 10 mod 10 ^ w) + n mod 10"
      by (rule mod_mult2_eq)
    then show ?thesis
      by (simp add: byte_digitChar charStart_def)
  qed
  show ?case
    unfolding padded.simps scanTo_app ih option.case scanTo_digit[OF d b]
    using val by simp
qed


lemma delimiters_not_digits:
  "\<not> isDigit CHR ''-''" "\<not> isDigit CHR ''+''" "\<not> isDigit CHR ''T''"
  "\<not> isDigit CHR ''.''"
  by (simp_all add: isDigit_def)

lemma scanTo_datetime:
  assumes "Y < 10000" "M < 100" "D < 100" "h < 100" "m < 100" "s < 100"
  shows "scanTo initScan
           (padded 4 Y @ ''-'' @ padded 2 M @ ''-'' @ padded 2 D @ ''T''
              @ padded 2 h @ '':'' @ padded 2 m @ '':'' @ padded 2 s) tail
         = Some \<lparr>vY = int Y, vM = int M, vd = int D, vh = int h, vm = int m, vs = 0,
                  vfraction = 0, vnfraction = 1, vloc = UTC, vc = int s, vp = second\<rparr>"
  using assms
  by (simp add: scanTo_app scanTo_padded scanStep_def initScan_def cursor_defs
      delimiters_not_digits)

lemma trimZeros_snoc:
  "trimZeros (xs @ [ch]) = (if ch = CHR ''0'' then trimZeros xs else xs @ [ch])"
  by (simp add: trimZeros_def)

lemma trimZeros_padded:
  "n < 10 ^ w \<Longrightarrow>
   \<exists>k m. k \<le> w \<and> trimZeros (padded w n) = padded k m \<and> m < 10 ^ k
      \<and> m * 10 ^ (w - k) = n \<and> (k = 0 \<longleftrightarrow> n = 0)"
proof (induction w arbitrary: n)
  case 0
  then show ?case by (intro exI[of _ 0]) (simp add: trimZeros_def)
next
  case (Suc w)
  have q: "n div 10 < 10 ^ w"
    using Suc.prems by (simp add: less_mult_imp_div_less mult.commute)
  show ?case
  proof (cases "n mod 10 = 0")
    case True
    from Suc.IH[OF q] obtain k m where kmc: "k \<le> w \<and> trimZeros (padded w (n div 10)) = padded k m
      \<and> m < 10 ^ k \<and> m * 10 ^ (w - k) = n div 10 \<and> (k = 0 \<longleftrightarrow> n div 10 = 0)"
      by (elim exE)
    then have km: "k \<le> w" "trimZeros (padded w (n div 10)) = padded k m"
      "m < 10 ^ k" "m * 10 ^ (w - k) = n div 10" "k = 0 \<longleftrightarrow> n div 10 = 0"
      by simp_all
    have n: "n = n div 10 * 10" using True by presburger
    have "trimZeros (padded (Suc w) n) = padded k m"
      using True km(2) by (simp add: trimZeros_snoc digitChar_zero)
    moreover have "m * 10 ^ (Suc w - k) = n"
    proof -
      have "m * 10 ^ (Suc w - k) = m * 10 ^ (w - k) * 10"
        using km(1) by (simp add: Suc_diff_le)
      also have "\<dots> = n div 10 * 10" by (simp only: km(4))
      finally show ?thesis using n by presburger
    qed
    moreover have "k = 0 \<longleftrightarrow> n = 0"
      using km(5) n by presburger
    ultimately show ?thesis using km(1,3) by (intro exI[of _ k] exI[of _ m]) auto
  next
    case False
    then have "digitChar (n mod 10) \<noteq> CHR ''0''"
      by (simp add: digitChar_eq_zero)
    then have "trimZeros (padded (Suc w) n) = padded (Suc w) n"
      by (simp add: trimZeros_snoc)
    moreover have "n \<noteq> 0" using False by auto
    ultimately show ?thesis using Suc.prems
      by (intro exI[of _ "Suc w"] exI[of _ n]) auto
  qed
qed

lemma appendNano_full:
  assumes "0 \<le> ns" "ns < 10 ^ 9"
  shows "(ns = 0 \<and> appendNano ns 9 = [])
       \<or> (\<exists>k m. 1 \<le> k \<and> k \<le> 9 \<and> m < 10 ^ k \<and> int m * 10 ^ (9 - k) = ns
              \<and> appendNano ns 9 = CHR ''.'' # padded k m)"
proof -
  have p: "appendInt ns 9 = padded 9 (nat ns)"
    using assms by (intro appendInt_padded) auto
  have lt: "nat ns < 10 ^ 9"
    using assms by (metis nat_less_iff of_nat_numeral of_nat_power)
  from trimZeros_padded[OF lt] obtain k m where kmc: "k \<le> 9 \<and>
    trimZeros (padded 9 (nat ns)) = padded k m \<and> m < 10 ^ k \<and> m * 10 ^ (9 - k) = nat ns
    \<and> (k = 0 \<longleftrightarrow> nat ns = 0)"
    by (elim exE)
  then have km: "k \<le> 9"
    "trimZeros (padded 9 (nat ns)) = padded k m" "m < 10 ^ k" "m * 10 ^ (9 - k) = nat ns"
    "k = 0 \<longleftrightarrow> nat ns = 0"
    by simp_all
  have "length (padded 9 (nat ns)) \<le> 9" by (simp only: length_padded)
  then have t: "take 9 (padded 9 (nat ns)) = padded 9 (nat ns)"
    by (rule take_all)
  have v: "int m * 10 ^ (9 - k) = ns"
  proof -
    have "int (m * 10 ^ (9 - k)) = int (nat ns)" by (simp only: km(4))
    then show ?thesis using assms(1) by simp
  qed
  have an: "appendNano ns 9 = (if padded k m = [] then [] else CHR ''.'' # padded k m)"
    unfolding appendNano_def p t km(2) Let_def ..
  show ?thesis
  proof (cases "k = 0")
    case True
    then have "ns = 0" using km(5) assms(1) by simp
    moreover have "appendNano ns 9 = []"
      using True by (simp add: an)
    ultimately show ?thesis by simp
  next
    case False
    then have "padded k m \<noteq> []"
      by (metis length_padded length_0_conv)
    then have "appendNano ns 9 = CHR ''.'' # padded k m"
      by (simp add: an)
    then show ?thesis using False km(1,3) v by (intro disjI2 exI[of _ k] exI[of _ m]) auto
  qed
qed

lemma padded_2: "padded 2 n = [digitChar (n div 10 mod 10), digitChar (n mod 10)]"
  by (simp add: numeral_2_eq_2)

lemma two_digitChar:
  "a < 10 \<Longrightarrow> b < 10 \<Longrightarrow> two (digitChar a) (digitChar b) = int a * 10 + int b"
  by (simp add: two_def byte_digitChar charStart_def)

lemma zoneGroups_hh_mm:
  assumes "hh < 100" "mm < 100"
  shows "zoneGroups (padded 2 hh @ '':'' @ padded 2 mm) = Some (int hh, int mm, 0)"
proof -
  have d: "hh div 10 mod 10 < 10" "hh mod 10 < 10" "mm div 10 mod 10 < 10" "mm mod 10 < 10"
    by simp_all
  have "hh div 10 < 10" using assms(1) by arith
  then have e1: "hh div 10 mod 10 = hh div 10" by simp
  have "mm div 10 < 10" using assms(2) by arith
  then have e2: "mm div 10 mod 10 = mm div 10" by simp
  have "hh div 10 * 10 + hh mod 10 = hh" by simp
  then have "int (hh div 10 * 10 + hh mod 10) = int hh" by (rule arg_cong)
  then have h': "int (hh div 10) * 10 + int (hh mod 10) = int hh"
    by (simp only: of_nat_add of_nat_mult of_nat_numeral)
  have "mm div 10 * 10 + mm mod 10 = mm" by simp
  then have "int (mm div 10 * 10 + mm mod 10) = int mm" by (rule arg_cong)
  then have m': "int (mm div 10) * 10 + int (mm mod 10) = int mm"
    by (simp only: of_nat_add of_nat_mult of_nat_numeral)
  show ?thesis
    using d h' m'
    by (simp add: zoneGroups_def padded_2 isDigit_digitChar two_digitChar e1 e2)
qed

lemma appendZone_shape:
  assumes "off \<noteq> 0" "off mod 60 = 0" "\<bar>off\<bar> < 360000"
  shows "\<exists>hh mm. hh < 100 \<and> mm < 60 \<and> \<bar>off\<bar> = int hh * 3600 + int mm * 60
     \<and> appendZone off = (if off < 0 then CHR ''-'' else CHR ''+'')
                          # (padded 2 hh @ '':'' @ padded 2 mm)"
proof -
  from assms(2) obtain q where q: "off = 60 * q" by (auto simp: mod_eq_0_iff_dvd)
  let ?a = "\<bar>q\<bar>"
  have a: "0 < ?a" "?a < 6000"
    using assms(1,3) q by auto
  have d: "\<bar>off\<bar> div 60 = ?a"
    by (simp add: q abs_mult)
  have z: "\<bar>quot off 60\<bar> = ?a" "quot off 60 < 0 \<longleftrightarrow> off < 0"
    using a(1) by (auto simp: quot_def q abs_mult)
  let ?hh = "nat (?a div 60)" and ?mm = "nat (?a mod 60)"
  have hh: "?hh < 100" "?mm < 60" using a(2) by simp_all
  have i1: "appendInt (?a div 60) 2 = padded 2 ?hh"
    using a(2) by (intro appendInt_padded) auto
  have i2: "appendInt (?a mod 60) 2 = padded 2 ?mm"
    by (intro appendInt_padded) auto
  obtain H Mn where HM: "H = ?a div 60" "Mn = ?a mod 60" by simp
  have e: "?a = H * 60 + Mn" by (simp add: HM)
  have r: "0 \<le> H" "0 \<le> Mn" by (simp_all add: HM)
  have "\<bar>off\<bar> = ?a * 60" by (simp add: q abs_mult)
  also have "\<dots> = (H * 60 + Mn) * 60" by (simp only: e)
  also have "\<dots> = int (nat H) * 3600 + int (nat Mn) * 60"
    using r by (simp add: algebra_simps)
  finally have v: "\<bar>off\<bar> = int ?hh * 3600 + int ?mm * 60"
    by (simp only: HM)
  have az: "appendZone off = (if off < 0 then CHR ''-'' else CHR ''+'')
                          # (padded 2 ?hh @ '':'' @ padded 2 ?mm)"
    using assms(1) by (simp add: appendZone_def Let_def z i1 i2)
  show ?thesis by (intro exI[of _ ?hh] exI[of _ ?mm] conjI hh v az)
qed

lemma ParseISOZone_appendZone:
  assumes "off \<noteq> 0" "off mod 60 = 0" "\<bar>off\<bar> < 360000"
  shows "\<exists>sg rest. appendZone off = sg # rest \<and> (sg = CHR ''+'' \<or> sg = CHR ''-'')
     \<and> ParseISOZone (sg # rest) = Inr (FixedZone (sg # rest) off)"
proof -
  from appendZone_shape[OF assms] obtain hh mm where hmc:
    "hh < 100 \<and> mm < 60 \<and> \<bar>off\<bar> = int hh * 3600 + int mm * 60
     \<and> appendZone off = (if off < 0 then CHR ''-'' else CHR ''+'')
                          # (padded 2 hh @ '':'' @ padded 2 mm)"
    by (elim exE)
  then have hm: "hh < 100" "mm < 100" "\<bar>off\<bar> = int hh * 3600 + int mm * 60"
    and az: "appendZone off = (if off < 0 then CHR ''-'' else CHR ''+'')
                          # (padded 2 hh @ '':'' @ padded 2 mm)"
    by simp_all
  let ?n = "padded 2 hh @ '':'' @ padded 2 mm"
  have g: "zoneGroups ?n = Some (int hh, int mm, 0)"
    by (rule zoneGroups_hh_mm[OF hm(1,2)])
  have len: "\<not> length ?n < 2" by simp
  show ?thesis
  proof (cases "off < 0")
    case True
    have "zoneResult True (CHR ''-'' # ?n) ?n = Inr (FixedZone (CHR ''-'' # ?n) off)"
      unfolding zoneResult_groups using g hm(3) True assms(1) by simp
    then have "ParseISOZone (CHR ''-'' # ?n) = Inr (FixedZone (CHR ''-'' # ?n) off)"
      using len by (simp only: ParseISOZone_minus if_False)
    with az True show ?thesis by auto
  next
    case False
    have "zoneResult False (CHR ''+'' # ?n) ?n = Inr (FixedZone (CHR ''+'' # ?n) off)"
      unfolding zoneResult_groups using g hm(3) False assms(1) by simp
    then have "ParseISOZone (CHR ''+'' # ?n) = Inr (FixedZone (CHR ''+'' # ?n) off)"
      using len by (simp only: ParseISOZone_plus if_False)
    with az False show ?thesis by auto
  qed
qed

lemma scanLoop_Z_end:
  "vp st = second \<or> vp st = millisecond \<Longrightarrow> scanLoop st ''Z'' = Inr (closeField st)"
  by (auto simp: scanStep_Z cursor_defs)

lemma scanStep_plus:
  "vp st = second \<or> vp st = millisecond \<Longrightarrow>
   scanStep st CHR ''+'' rest =
     (case ParseISOZone (CHR ''+'' # rest) of
        Inl e \<Rightarrow> Fail e
      | Inr l \<Rightarrow> Break ((closeField st)\<lparr>vloc := l\<rparr>))"
  by (auto simp: scanStep_def closeField_def cursor_defs isDigit_def Let_def split: sum.splits)

lemma scanStep_minus:
  "vp st = second \<or> vp st = millisecond \<Longrightarrow>
   scanStep st CHR ''-'' rest =
     (case ParseISOZone (CHR ''-'' # rest) of
        Inl e \<Rightarrow> Fail e
      | Inr l \<Rightarrow> Break ((closeField st)\<lparr>vloc := l\<rparr>))"
  by (auto simp: scanStep_def closeField_def cursor_defs isDigit_def Let_def split: sum.splits)

lemma scanLoop_zone:
  "vp st = second \<or> vp st = millisecond \<Longrightarrow> sg = CHR ''+'' \<or> sg = CHR ''-'' \<Longrightarrow>
   ParseISOZone (sg # rest) = Inr l \<Longrightarrow>
   scanLoop st (sg # rest) = Inr ((closeField st)\<lparr>vloc := l\<rparr>)"
  by (auto simp: scanStep_plus scanStep_minus)

lemma daysIn_le: "daysIn mo y \<le> 31"
  by (simp add: daysIn_def)

lemma finish_valid:
  assumes "vc st = 0" "1 \<le> vM st" "vM st \<le> 12" "1 \<le> vd st"
    "vd st \<le> daysIn (vM st) (vY st)" "vh st \<le> 23" "vm st \<le> 59" "vs st \<le> 59"
    "0 \<le> vfraction st" "vfraction st < 1000000000"
    "vfraction st * 10 ^ nat (10 - vnfraction st) < 2 ^ 63"
  shows "finish inp st =
     Inr (Date (vY st) (vM st) (vd st) (vh st) (vm st) (vs st)
            (vfraction st * 10 ^ nat (10 - vnfraction st)) (vloc st))"
proof -
  have c: "captureRemaining st = st"
    using assms(1) by (simp add: captureRemaining_def)
  have s: "scaleLoop (nat (10 - vnfraction st)) (vfraction st)
             = vfraction st * 10 ^ nat (10 - vnfraction st)"
    using assms(9,11) by (rule scaleLoop_pow)
  show ?thesis
    unfolding finish_def c Let_def s using assms(2-10) by simp
qed

lemma scanTo_fraction:
  assumes "vp st = second" "k \<le> 9" "m < 10 ^ k"
  shows "scanTo st (CHR ''.'' # padded k m) suf =
     Some (st\<lparr>vs := vc st, vc := int m, vp := millisecond,
              vnfraction := vnfraction st + int k\<rparr>)"
proof -
  let ?st1 = "st\<lparr>vs := vc st, vc := 0, vp := millisecond\<rparr>"
  have 1: "scanStep st CHR ''.'' (padded k m @ suf) = Continue ?st1"
    using assms(1) by (simp add: scanStep_def delimiters_not_digits cursor_defs isDigit_def)
  have "scanTo ?st1 (padded k m) suf =
     Some (?st1\<lparr>vc := int (m mod 10 ^ k),
              vnfraction := (if vp ?st1 = millisecond then vnfraction ?st1 + int k
                             else vnfraction ?st1)\<rparr>)"
    using assms(2) by (intro scanTo_padded) auto
  then have 2: "scanTo ?st1 (padded k m) suf =
     Some (st\<lparr>vs := vc st, vc := int m, vp := millisecond,
              vnfraction := vnfraction st + int k\<rparr>)"
    using assms(3) by simp
  show ?thesis
    by (simp only: scanTo.simps 1 step.case 2)
qed


text \<open>
  Claim C9, as the code has it. Let \<open>t\<close> be a time whose fields are in their ranges
  (year 0..9999, a day that exists in its month, hour 0..23, minute and second 0..59,
  nanosecond in [0, 1e9)) and whose zone offset is a whole number of minutes, less than
  100 hours in magnitude. Then \<open>MarshalText\<close> with the layout of full precision returns a
  text, \<open>Parse\<close> accepts that text, and the parsed time has the year, month, day, hour,
  minute, second, nanosecond and zone offset of \<open>t\<close>.
\<close>

theorem roundtrip_full_precision:
  assumes y: "0 \<le> Year t" "Year t \<le> 9999"
    and mo: "1 \<le> Month t" "Month t \<le> 12"
    and d: "1 \<le> Day t" "Day t \<le> daysIn (Month t) (Year t)"
    and h: "0 \<le> Hour t" "Hour t \<le> 23"
    and mi: "0 \<le> Minute t" "Minute t \<le> 59"
    and s: "0 \<le> Second t" "Second t \<le> 59"
    and ns: "0 \<le> Nanosecond t" "Nanosecond t < 1000000000"
    and z: "zoneOffset (Location t) mod 60 = 0" "\<bar>zoneOffset (Location t)\<bar> < 360000"
  shows "\<exists>b u. MarshalText RFC3339Nano t = Inr b \<and> Parse b = Inr u
           \<and> Year u = Year t \<and> Month u = Month t \<and> Day u = Day t
           \<and> Hour u = Hour t \<and> Minute u = Minute t \<and> Second u = Second t
           \<and> Nanosecond u = Nanosecond t
           \<and> zoneOffset (Location u) = zoneOffset (Location t)"
proof -
  let ?off = "zoneOffset (Location t)"
  let ?body = "padded 4 (nat (Year t)) @ ''-'' @ padded 2 (nat (Month t)) @ ''-''
      @ padded 2 (nat (Day t)) @ ''T'' @ padded 2 (nat (Hour t)) @ '':''
      @ padded 2 (nat (Minute t)) @ '':'' @ padded 2 (nat (Second t))"
  let ?frac = "appendNano (Nanosecond t) 9"
  let ?zone = "appendZone ?off"
  let ?b = "?body @ ?frac @ ?zone"
  have d31: "Day t \<le> 31" using d(2) daysIn_le[of "Month t" "Year t"] by linarith
  have bounds: "nat (Year t) < 10000" "nat (Month t) < 100" "nat (Day t) < 100"
    "nat (Hour t) < 100" "nat (Minute t) < 100" "nat (Second t) < 100"
    using y mo d(1) d31 h mi s by linarith+
  have ai: "appendInt (Year t) 4 = padded 4 (nat (Year t))"
    "appendInt (Month t) 2 = padded 2 (nat (Month t))"
    "appendInt (Day t) 2 = padded 2 (nat (Day t))"
    "appendInt (Hour t) 2 = padded 2 (nat (Hour t))"
    "appendInt (Minute t) 2 = padded 2 (nat (Minute t))"
    "appendInt (Second t) 2 = padded 2 (nat (Second t))"
    using y mo d(1) d31 h mi s by (auto intro!: appendInt_padded)
  have mt: "MarshalText RFC3339Nano t = Inr ?b"
    using y by (simp add: MarshalText_def AppendFormat_def ai)
  let ?st = "\<lparr>vY = Year t, vM = Month t, vd = Day t, vh = Hour t, vm = Minute t, vs = 0,
               vfraction = 0, vnfraction = 1, vloc = UTC, vc = Second t, vp = second\<rparr>"
  have pre: "scanTo initScan ?body tail = Some ?st" for tail
    using scanTo_datetime[OF bounds, of tail] y mo d(1) h mi s by simp
  have loop: "scanLoop initScan (?body @ tail) = scanLoop ?st tail" for tail
    by (rule scanLoop_scanTo[OF pre])
  \<comment> \<open>the state when the zone is reached, with its open field closed\<close>
  have "\<exists>st2 f k. (vp st2 = second \<or> vp st2 = millisecond)
          \<and> (\<forall>tail. scanLoop ?st (?frac @ tail) = scanLoop st2 tail)
          \<and> closeField st2 = \<lparr>vY = Year t, vM = Month t, vd = Day t, vh = Hour t,
                 vm = Minute t, vs = Second t, vfraction = f, vnfraction = 1 + int k,
                 vloc = UTC, vc = 0, vp = vp st2\<rparr>
          \<and> 0 \<le> f \<and> k \<le> 9 \<and> f * 10 ^ (9 - k) = Nanosecond t"
  proof -
    from appendNano_full[of "Nanosecond t"] ns
    consider (none) "Nanosecond t = 0" "?frac = []"
      | (some) k m where "1 \<le> k" "k \<le> 9" "m < 10 ^ k"
          "int m * 10 ^ (9 - k) = Nanosecond t" "?frac = CHR ''.'' # padded k m"
      by auto
    then show ?thesis
    proof cases
      case none
      have "\<forall>tail. scanLoop ?st (?frac @ tail) = scanLoop ?st tail"
        by (simp only: none(2) append_Nil) simp
      then show ?thesis
        using none(1)
        by (intro exI[of _ ?st] exI[of _ 0] conjI)
          (simp_all add: closeField_def cursor_defs)
    next
      case some
      let ?st2 = "?st\<lparr>vs := vc ?st, vc := int m, vp := millisecond,
              vnfraction := vnfraction ?st + int k\<rparr>"
      have "scanTo ?st (CHR ''.'' # padded k m) tail = Some ?st2" for tail
        by (rule scanTo_fraction[OF _ some(2,3)]) simp
      then have "scanLoop ?st (?frac @ tail) = scanLoop ?st2 tail" for tail
        unfolding some(5) by (rule scanLoop_scanTo)
      then show ?thesis
        using some(2,4)
        by (intro exI[of _ ?st2] exI[of _ "int m"] exI[of _ k])
          (simp add: closeField_def cursor_defs)
    qed
  qed
  then obtain st2 f k where st2c: "(vp st2 = second \<or> vp st2 = millisecond)
          \<and> (\<forall>tail. scanLoop ?st (?frac @ tail) = scanLoop st2 tail)
          \<and> closeField st2 = \<lparr>vY = Year t, vM = Month t, vd = Day t, vh = Hour t,
                 vm = Minute t, vs = Second t, vfraction = f, vnfraction = 1 + int k,
                 vloc = UTC, vc = 0, vp = vp st2\<rparr>
          \<and> 0 \<le> f \<and> k \<le> 9 \<and> f * 10 ^ (9 - k) = Nanosecond t"
    by (elim exE)
  then have p2: "vp st2 = second \<or> vp st2 = millisecond"
    and fr: "scanLoop ?st (?frac @ tail) = scanLoop st2 tail"
    and cf: "closeField st2 = \<lparr>vY = Year t, vM = Month t, vd = Day t, vh = Hour t,
                 vm = Minute t, vs = Second t, vfraction = f, vnfraction = 1 + int k,
                 vloc = UTC, vc = 0, vp = vp st2\<rparr>"
    and fk: "0 \<le> f" "k \<le> 9" "f * 10 ^ (9 - k) = Nanosecond t" for tail
    by simp_all
  have whole: "scanLoop initScan ?b = scanLoop st2 ?zone"
    by (simp only: loop fr)
  have flt: "f < 1000000000"
  proof -
    have "f * 1 \<le> f * 10 ^ (9 - k)" using fk(1) by (intro mult_left_mono) auto
    then show ?thesis using fk(3) ns(2) by simp
  qed
  have fin: "finish ?b ((closeField st2)\<lparr>vloc := l\<rparr>) =
      Inr (Date (Year t) (Month t) (Day t) (Hour t) (Minute t) (Second t) (Nanosecond t) l)" for l
  proof -
    let ?c = "(closeField st2)\<lparr>vloc := l\<rparr>"
    have n: "nat (10 - (1 + int k)) = 9 - k" "nat (9 - int k) = 9 - k" using fk(2) by simp_all
    have "finish ?b ?c = Inr (Date (vY ?c) (vM ?c) (vd ?c) (vh ?c) (vm ?c) (vs ?c)
            (vfraction ?c * 10 ^ nat (10 - vnfraction ?c)) (vloc ?c))"
      using mo d h mi s fk(1,3) flt ns(2)
      by (intro finish_valid) (simp_all add: cf n)
    then show ?thesis using fk(3) by (simp add: cf n)
  qed
  show ?thesis
  proof (cases "?off = 0")
    case True
    have zn: "?zone = ''Z''" using True by (simp add: appendZone_def)
    have "scanLoop st2 ?zone = Inr (closeField st2)"
      unfolding zn by (rule scanLoop_Z_end[OF p2])
    with whole have "scanLoop initScan ?b = Inr (closeField st2)"
      by (rule trans)
    moreover have "closeField st2 = (closeField st2)\<lparr>vloc := UTC\<rparr>"
      by (simp add: cf)
    ultimately have pr: "Parse ?b = Inr (Date (Year t) (Month t) (Day t) (Hour t) (Minute t)
        (Second t) (Nanosecond t) UTC)"
      using fin[of UTC] by (simp add: Parse_def)
    show ?thesis
      by (intro exI[of _ ?b] exI[of _ "Date (Year t) (Month t) (Day t) (Hour t) (Minute t)
        (Second t) (Nanosecond t) UTC"] conjI mt pr) (simp_all add: Date_def True)
  next
    case False
    from ParseISOZone_appendZone[OF False z] obtain sg rest where zc:
      "appendZone ?off = sg # rest \<and> (sg = CHR ''+'' \<or> sg = CHR ''-'')
       \<and> ParseISOZone (sg # rest) = Inr (FixedZone (sg # rest) ?off)"
      by (elim exE)
    then have zn: "?zone = sg # rest" and sg: "sg = CHR ''+'' \<or> sg = CHR ''-''"
      and pz: "ParseISOZone (sg # rest) = Inr (FixedZone (sg # rest) ?off)"
      by simp_all
    have "scanLoop st2 ?zone = Inr ((closeField st2)\<lparr>vloc := FixedZone (sg # rest) ?off\<rparr>)"
      unfolding zn by (rule scanLoop_zone[OF p2 sg pz])
    with whole
    have "scanLoop initScan ?b = Inr ((closeField st2)\<lparr>vloc := FixedZone (sg # rest) ?off\<rparr>)"
      by (rule trans)
    then have pr: "Parse ?b = Inr (Date (Year t) (Month t) (Day t) (Hour t) (Minute t)
        (Second t) (Nanosecond t) (FixedZone (sg # rest) ?off))"
      using fin[of "FixedZone (sg # rest) ?off"] by (simp add: Parse_def)
    show ?thesis
      by (intro exI[of _ ?b] exI[of _ "Date (Year t) (Month t) (Day t) (Hour t) (Minute t)
        (Second t) (Nanosecond t) (FixedZone (sg # rest) ?off)"] conjI mt pr)
        (simp_all add: Date_def)
  qed
qed

theorem roundtrip_full_precision_witness:
  "\<exists>b u. MarshalText RFC3339Nano
            (Date 2017 4 26 11 13 4 123456789 (FixedZone ''+05:30'' 19800)) = Inr b
        \<and> Parse b = Inr u
        \<and> Year u = 2017 \<and> Month u = 4 \<and> Day u = 26
        \<and> Hour u = 11 \<and> Minute u = 13 \<and> Second u = 4
        \<and> Nanosecond u = 123456789
        \<and> zoneOffset (Location u) = 19800"
  using roundtrip_full_precision[of "Date 2017 4 26 11 13 4 123456789 (FixedZone ''+05:30'' 19800)"]
  by (simp add: Date_def daysIn_def)

text \<open>
  Claim C9 as stated fails for a zone offset with seconds. \<open>Parse\<close> itself yields the
  time 2017-04-24 09:41:34 at the offset +05:01:01 (18061 seconds); its encoding at full
  precision writes the zone as \<open>+05:01\<close>, and decoding that gives the offset 18060.
\<close>

theorem roundtrip_zone_seconds_counterexample:
  "Parse ''2017-04-24T09:41:34+05:01:01''
     = Inr (Date 2017 4 24 9 41 34 0 (FixedZone ''+05:01:01'' 18061))
   \<and> MarshalText RFC3339Nano (Date 2017 4 24 9 41 34 0 (FixedZone ''+05:01:01'' 18061))
     = Inr ''2017-04-24T09:41:34+05:01''
   \<and> Parse ''2017-04-24T09:41:34+05:01''
     = Inr (Date 2017 4 24 9 41 34 0 (FixedZone ''+05:01'' 18060))
   \<and> zoneOffset (FixedZone ''+05:01'' 18060) \<noteq> zoneOffset (FixedZone ''+05:01:01'' 18061)"
  by code_simp

section \<open>JSON decoding of a payload\<close>

text \<open>
  Claim C2 does not hold of the code: \<open>null\<close> joins its four byte comparisons with
  \<open>&&\<close>, so a payload of four bytes counts as the null token as soon as one of its bytes
  agrees with \<open>null\<close> in its position. The unquoted payload \<open>nope\<close> returns success and
  leaves the destination as it was, where the claim asks for the not-a-string error. The
  quoted payload \<open>"ua"\<close>, four bytes with \<open>u\<close> in second place, does the same, so its
  interior never reaches \<open>Parse\<close>, which would reject it.
\<close>

theorem unmarshal_four_bytes_taken_as_null:
  "null ''nope'' \<and> UnmarshalJSON t ''nope'' = Returns (t, None)
   \<and> null (quote # ''ua'' @ [quote])
   \<and> UnmarshalJSON t (quote # ''ua'' @ [quote]) = Returns (t, None)
   \<and> Parse ''ua'' = Inl (UnexpectedCharacterError (byte CHR ''u''))"
proof -
  have p: "Parse ''ua'' = Inl (UnexpectedCharacterError (byte CHR ''u''))"
    by code_simp
  show ?thesis
    by (simp add: UnmarshalJSON_def null_def quote_def p)
qed

text \<open>
  Claim C10 does not hold of the code: on the payload made of one quote character the
  guard \<open>len(b) > 0 && b[0] == '"' && b[len(b)-1] == '"'\<close> holds and the slice
  expression \<open>b[1 : len(b)-1]\<close> is \<open>b[1:0]\<close>, which panics.
\<close>

theorem unmarshal_single_quote_panics:
  "UnmarshalJSON t [quote] = Panic"
  by (simp add: UnmarshalJSON_def null_def)

end
